theory Spec2Isabelle
  imports Complex_Main
begin

section \<open>Python values and exceptions\<close>

text \<open>
  The notebook \<^verbatim>\<open>tutorials/qcnn.ipynb\<close> is Python. Every exception it can raise is a
  value of \<open>error\<close>; a computation that may raise returns \<open>error + 'a\<close>, with \<open>Inl\<close>
  for the exception.
\<close>

datatype error = IndexError | InvalidInputError | WireError | ZeroDivisionError

text \<open>\<^verbatim>\<open>xs[i]\<close> for a non-negative index: out of range raises.\<close>

definition getitem :: "'a list \<Rightarrow> nat \<Rightarrow> error + 'a" where
  "getitem xs i = (if i < length xs then Inr (xs ! i) else Inl IndexError)"

text \<open>\<^verbatim>\<open>xs[a:b]\<close> never raises: it is cut at the end of the list.\<close>

definition slice :: "'a list \<Rightarrow> nat \<Rightarrow> nat \<Rightarrow> 'a list" where
  "slice xs a b = take (b - a) (drop a xs)"

text \<open>\<^verbatim>\<open>range(a, b, s)\<close> for a positive step.\<close>

definition range_step :: "nat \<Rightarrow> nat \<Rightarrow> nat \<Rightarrow> nat list" where
  "range_step a b s = map (\<lambda>k. a + k * s) [0 ..< (b - a + s - 1) div s]"

text \<open>
  Arguments are evaluated from left to right before the call; the first one that raises
  decides the exception.
\<close>

fun ap :: "error + ('a \<Rightarrow> 'b) \<Rightarrow> error + 'a \<Rightarrow> error + 'b" where
  "ap (Inl e) _ = Inl e"
| "ap (Inr f) (Inl e) = Inl e"
| "ap (Inr f) (Inr x) = Inr (f x)"

section \<open>The operations a quantum function queues\<close>

text \<open>
  A PennyLane quantum function does not compute: each \<^verbatim>\<open>qml.<Op>(...)\<close> call appends one
  operation to the tape that is being recorded. The tape is the state that the notebook's
  functions pass on; a statement is a function from the tape to the new tape, or to the
  exception that ends the recording.
\<close>

datatype operation =
    AmplitudeEmbedding "real list" "nat list"
  | U3 real real real nat
  | RY real nat
  | RZ real nat
  | CNOT nat nat

type_synonym tape = "operation list"

type_synonym 's statement = "'s \<Rightarrow> error + 's"

definition queue :: "error + operation \<Rightarrow> tape statement" where
  "queue r t = (case r of Inl e \<Rightarrow> Inl e | Inr g \<Rightarrow> Inr (t @ [g]))"

text \<open>A block of statements runs them in order and stops at the first exception.\<close>

fun seq :: "'s statement list \<Rightarrow> 's statement" where
  "seq [] t = Inr t"
| "seq (c # cs) t = (case c t of Inl e \<Rightarrow> Inl e | Inr t' \<Rightarrow> seq cs t')"

definition qml_U3 ::
  "error + real \<Rightarrow> error + real \<Rightarrow> error + real \<Rightarrow> error + nat \<Rightarrow> tape statement" where
  "qml_U3 theta phi delta w = queue (ap (ap (ap (ap (Inr U3) theta) phi) delta) w)"

definition qml_RY :: "error + real \<Rightarrow> error + nat \<Rightarrow> tape statement" where
  "qml_RY theta w = queue (ap (ap (Inr RY) theta) w)"

definition qml_RZ :: "error + real \<Rightarrow> error + nat \<Rightarrow> tape statement" where
  "qml_RZ theta w = queue (ap (ap (Inr RZ) theta) w)"

text \<open>
  The wires of one operation must be distinct: PennyLane refuses \<^verbatim>\<open>CNOT(wires=[a, a])\<close>
  when the operation is made.
\<close>

definition qml_CNOT :: "error + nat \<Rightarrow> error + nat \<Rightarrow> tape statement" where
  "qml_CNOT c t =
     queue (case ap (ap (Inr Pair) c) t of
              Inl e \<Rightarrow> Inl e
            | Inr (a, b) \<Rightarrow> if a = b then Inl WireError else Inr (CNOT a b))"

text \<open>
  Modelled from the spec: \<^verbatim>\<open>qml.AmplitudeEmbedding\<close> belongs to the PennyLane library, which
  is not among the repository's sources. The spec (4.2, 6, 7) gives its contract: the
  features are a real vector of length exactly \<open>2^n\<close> (another length is an
  InvalidInputError), they are divided by their Euclidean norm, a zero norm is an
  InvalidInputError, and the amplitudes of the state are the normalised features. The
  operation that is queued holds the features as they will be loaded.
\<close>

definition qml_AmplitudeEmbedding :: "real list \<Rightarrow> nat list \<Rightarrow> bool \<Rightarrow> tape statement" where
  "qml_AmplitudeEmbedding features wires normalize_arg =
     queue (if length features \<noteq> 2 ^ length wires then Inl InvalidInputError
            else let l2 = sqrt (\<Sum>x\<leftarrow>features. x\<^sup>2) in
              if l2 = 0 then Inl InvalidInputError
              else if normalize_arg then Inr (AmplitudeEmbedding (map (\<lambda>x. x / l2) features) wires)
              else if l2 = 1 then Inr (AmplitudeEmbedding features wires)
              else Inl InvalidInputError)"

text \<open>
  \<^verbatim>\<open>
  def data_embedding(X):
      qml.AmplitudeEmbedding(X, wires=range(8), normalize=True)
  \<close>
\<close>

definition data_embedding :: "real list \<Rightarrow> tape statement" where
  "data_embedding X = qml_AmplitudeEmbedding X (range_step 0 8 1) True"

section \<open>The two-qubit block and the layers\<close>

text \<open>
  \<^verbatim>\<open>
  def U_SU4(params, wires): # 15 params
      qml.U3(params[0], params[1], params[2], wires=wires[0])
      qml.U3(params[3], params[4], params[5], wires=wires[1])
      qml.CNOT(wires=[wires[0], wires[1]])
      qml.RY(params[6], wires=wires[0])
      qml.RZ(params[7], wires=wires[1])
      qml.CNOT(wires=[wires[1], wires[0]])
      qml.RY(params[8], wires=wires[0])
      qml.CNOT(wires=[wires[0], wires[1]])
      qml.U3(params[9], params[10], params[11], wires=wires[0])
      qml.U3(params[12], params[13], params[14], wires=wires[1])
  \<close>
\<close>

definition U_SU4 :: "real list \<Rightarrow> nat list \<Rightarrow> tape statement" where
  "U_SU4 params wires = seq
     [ qml_U3 (getitem params 0) (getitem params 1) (getitem params 2) (getitem wires 0),
       qml_U3 (getitem params 3) (getitem params 4) (getitem params 5) (getitem wires 1),
       qml_CNOT (getitem wires 0) (getitem wires 1),
       qml_RY (getitem params 6) (getitem wires 0),
       qml_RZ (getitem params 7) (getitem wires 1),
       qml_CNOT (getitem wires 1) (getitem wires 0),
       qml_RY (getitem params 8) (getitem wires 0),
       qml_CNOT (getitem wires 0) (getitem wires 1),
       qml_U3 (getitem params 9) (getitem params 10) (getitem params 11) (getitem wires 0),
       qml_U3 (getitem params 12) (getitem params 13) (getitem params 14) (getitem wires 1) ]"

text \<open>
  \<^verbatim>\<open>
  def conv_layer1(U, params):
      U(params, wires=[0, 7])
      for i in range(0, 8, 2):
          U(params, wires=[i, i + 1])
      for i in range(1, 7, 2):
          U(params, wires=[i, i + 1])
  def conv_layer2(U, params):
      U(params, wires=[0, 6])
      U(params, wires=[0, 2])
      U(params, wires=[4, 6])
      U(params, wires=[2, 4])
  def conv_layer3(U, params):
      U(params, wires=[0,4])
  \<close>
  The block \<open>U\<close> is an argument, so the layers are stated for any block and any state it
  acts on.
\<close>

definition conv_layer1 :: "(real list \<Rightarrow> nat list \<Rightarrow> 's statement) \<Rightarrow> real list \<Rightarrow> 's statement" where
  "conv_layer1 U params = seq
     [ U params [0, 7],
       seq (map (\<lambda>i. U params [i, i + 1]) (range_step 0 8 2)),
       seq (map (\<lambda>i. U params [i, i + 1]) (range_step 1 7 2)) ]"

definition conv_layer2 :: "(real list \<Rightarrow> nat list \<Rightarrow> 's statement) \<Rightarrow> real list \<Rightarrow> 's statement" where
  "conv_layer2 U params = seq
     [ U params [0, 6],
       U params [0, 2],
       U params [4, 6],
       U params [2, 4] ]"

definition conv_layer3 :: "(real list \<Rightarrow> nat list \<Rightarrow> 's statement) \<Rightarrow> real list \<Rightarrow> 's statement" where
  "conv_layer3 U params = seq [ U params [0, 4] ]"

text \<open>
  \<^verbatim>\<open>
  def QCNN_structure_without_pooling(U, params):
      param1 = params[0:15]
      param2 = params[15:30]
      param3 = params[30:45]

      conv_layer1(U, param1)
      conv_layer2(U, param2)
      conv_layer3(U, param3)
  \<close>
\<close>

definition QCNN_structure_without_pooling ::
  "(real list \<Rightarrow> nat list \<Rightarrow> 's statement) \<Rightarrow> real list \<Rightarrow> 's statement" where
  "QCNN_structure_without_pooling U params =
     (let param1 = slice params 0 15;
          param2 = slice params 15 30;
          param3 = slice params 30 45
      in seq [ conv_layer1 U param1, conv_layer2 U param2, conv_layer3 U param3 ])"

section \<open>The state-vector device\<close>

text \<open>
  Modelled from the spec: the device \<^verbatim>\<open>default.qubit\<close>, the matrices of the gates and the
  measurement belong to PennyLane and are not among the repository's sources. The spec (3,
  4.1) describes the state as a complex array of length \<open>2^n\<close> indexed by the computational
  basis index, a gate as a unitary matrix applied to the amplitudes that differ in the
  target bits only, and the measurement as the expectation of Pauli-Z on one qubit. The
  spec names the gates (general rotation with three parameters, rotation with one
  parameter, controlled NOT) without their entries; the entries below are the ones the
  PennyLane documentation gives for \<^verbatim>\<open>U3\<close>, \<^verbatim>\<open>RY\<close>, \<^verbatim>\<open>RZ\<close> and \<^verbatim>\<open>CNOT\<close>, over exact
  real and complex numbers. \<open>cis x\<close> is \<open>exp (\<i> x)\<close>.

  A state is the function from the basis index to the amplitude; only the indices below
  \<open>2^n\<close> are read. Wire \<open>0\<close> is the most significant bit of the index.
\<close>

type_synonym state = "nat \<Rightarrow> complex"

text \<open>A matrix \<open>[[a, b], [c, d]]\<close> is written \<open>(a, b, c, d)\<close>.\<close>

type_synonym mat2 = "complex \<times> complex \<times> complex \<times> complex"

text \<open>
  Modelled from the spec: the position, in the basis index of an \<open>n\<close>-qubit register, of
  the bit of wire \<open>w\<close> (PennyLane's order: wire \<open>0\<close> is the leftmost bit).
\<close>

definition wire_bit :: "nat \<Rightarrow> nat \<Rightarrow> nat" where
  "wire_bit n w = n - 1 - w"

text \<open>
  Modelled from the spec: the "single-qubit general rotation (3 parameters)", PennyLane's
  \<^verbatim>\<open>U3(theta, phi, delta)\<close>:
  \<^verbatim>\<open>[[cos(theta/2), -exp(i delta) sin(theta/2)], [exp(i phi) sin(theta/2), exp(i (phi + delta)) cos(theta/2)]]\<close>.
\<close>

definition U3_matrix :: "real \<Rightarrow> real \<Rightarrow> real \<Rightarrow> mat2" where
  "U3_matrix theta phi delta =
     ( complex_of_real (cos (theta / 2)),        - cis delta * complex_of_real (sin (theta / 2)),
       cis phi * complex_of_real (sin (theta / 2)), cis (phi + delta) * complex_of_real (cos (theta / 2)) )"

text \<open>
  Modelled from the spec: the "single-parameter rotation" on target 0, PennyLane's
  \<^verbatim>\<open>RY(theta)\<close>: \<^verbatim>\<open>[[cos(theta/2), -sin(theta/2)], [sin(theta/2), cos(theta/2)]]\<close>.
\<close>

definition RY_matrix :: "real \<Rightarrow> mat2" where
  "RY_matrix theta =
     ( complex_of_real (cos (theta / 2)), - complex_of_real (sin (theta / 2)),
       complex_of_real (sin (theta / 2)),   complex_of_real (cos (theta / 2)) )"

text \<open>
  Modelled from the spec: the "single-parameter rotation" on target 1, PennyLane's
  \<^verbatim>\<open>RZ(theta)\<close>: \<^verbatim>\<open>[[exp(-i theta/2), 0], [0, exp(i theta/2)]]\<close>.
\<close>

definition RZ_matrix :: "real \<Rightarrow> mat2" where
  "RZ_matrix theta = ( cis (- theta / 2), 0, 0, cis (theta / 2) )"

text \<open>
  Modelled from the spec: applying a gate "to the amplitudes indexed by the target qubits,
  leaving all other basis-index bits untouched" (4.1).
  A one-qubit gate on the bit \<open>j\<close> of the index: the new amplitude at \<open>k\<close> is the row of
  the matrix chosen by the bit \<open>j\<close> of \<open>k\<close>, times the two old amplitudes whose indices
  agree with \<open>k\<close> outside the bit \<open>j\<close>.
\<close>

definition apply_single :: "mat2 \<Rightarrow> nat \<Rightarrow> state \<Rightarrow> state" where
  "apply_single M j \<psi> = (case M of (a, b, c, d) \<Rightarrow>
     (\<lambda>k. if bit k j then c * \<psi> (unset_bit j k) + d * \<psi> (set_bit j k)
          else a * \<psi> (unset_bit j k) + b * \<psi> (set_bit j k)))"

text \<open>
  Modelled from the spec: the "controlled-NOT-equivalent operation", PennyLane's
  \<^verbatim>\<open>CNOT\<close>. It exchanges the two amplitudes that differ in the target bit, where the
  control bit is set.
\<close>

definition apply_CNOT :: "nat \<Rightarrow> nat \<Rightarrow> state \<Rightarrow> state" where
  "apply_CNOT c t \<psi> = (\<lambda>k. \<psi> (if bit k c then flip_bit t k else k))"

text \<open>
  Modelled from the spec: what the device does with one operation of the tape. Loading the
  features makes them the amplitudes of the state; a gate acts on the bits of its wires.
\<close>

fun apply_operation :: "nat \<Rightarrow> operation \<Rightarrow> state \<Rightarrow> state" where
  "apply_operation n (AmplitudeEmbedding f ws) \<psi> =
     (\<lambda>k. if k < length f then complex_of_real (f ! k) else 0)"
| "apply_operation n (U3 theta phi delta w) \<psi> = apply_single (U3_matrix theta phi delta) (wire_bit n w) \<psi>"
| "apply_operation n (RY theta w) \<psi> = apply_single (RY_matrix theta) (wire_bit n w) \<psi>"
| "apply_operation n (RZ theta w) \<psi> = apply_single (RZ_matrix theta) (wire_bit n w) \<psi>"
| "apply_operation n (CNOT c t) \<psi> = apply_CNOT (wire_bit n c) (wire_bit n t) \<psi>"

text \<open>Modelled from the spec: the operations of the tape are applied in the order they were queued.\<close>

definition run :: "nat \<Rightarrow> tape \<Rightarrow> state \<Rightarrow> state" where
  "run n t \<psi> = fold (apply_operation n) t \<psi>"

text \<open>
  Modelled from the spec: the device refuses an operation on a wire it does not have
  ("targeting qubit indices outside [0, n)" must fail, 4.1). The model loads a state on
  the whole register only, which is the one use the notebook makes of it.
\<close>

fun on_device :: "nat \<Rightarrow> operation \<Rightarrow> bool" where
  "on_device n (AmplitudeEmbedding f ws) = (ws = [0 ..< n] \<and> length f = 2 ^ n)"
| "on_device n (U3 theta phi delta w) = (w < n)"
| "on_device n (RY theta w) = (w < n)"
| "on_device n (RZ theta w) = (w < n)"
| "on_device n (CNOT c t) = (c < n \<and> t < n \<and> c \<noteq> t)"

text \<open>Modelled from the spec: the state \<open>|0...0>\<close> a device starts from (\<open>initialize\<close>, 4.1).\<close>

definition zero_state :: state where
  "zero_state = (\<lambda>k. if k = 0 then 1 else 0)"

text \<open>The sum of the squared magnitudes of the amplitudes of an \<open>n\<close>-qubit state.\<close>

definition norm_sq :: "nat \<Rightarrow> state \<Rightarrow> real" where
  "norm_sq n \<psi> = (\<Sum>k<2^n. (cmod (\<psi> k))\<^sup>2)"

text \<open>
  Modelled from the spec: \<^verbatim>\<open>qml.expval(qml.PauliZ(w))\<close>, the
  expectation of Pauli-Z on wire \<open>w\<close>: the probability of each basis state, with the
  sign of the eigenvalue (\<open>+1\<close> where the bit of the wire is clear, \<open>-1\<close> where it is set).
\<close>

definition expval_PauliZ :: "nat \<Rightarrow> nat \<Rightarrow> state \<Rightarrow> real" where
  "expval_PauliZ n w \<psi> =
     (\<Sum>k<2^n. (if bit k (wire_bit n w) then - 1 else 1) * (cmod (\<psi> k))\<^sup>2)"

text \<open>
  Modelled from the spec: the device with \<open>n\<close> wires runs a tape from \<open>|0...0>\<close> and
  returns the expectation of Pauli-Z on wire \<open>w\<close>.
\<close>

definition execute :: "nat \<Rightarrow> tape \<Rightarrow> nat \<Rightarrow> error + real" where
  "execute n t w =
     (if list_all (on_device n) t \<and> w < n then Inr (expval_PauliZ n w (run n t zero_state))
      else Inl WireError)"

text \<open>
  \<^verbatim>\<open>
  dev = qml.device('default.qubit', wires = 8)
  @qml.qnode(dev)
  def QCNN(X, params):

      data_embedding(X)
      QCNN_structure_without_pooling(U_SU4, params)
      result = qml.expval(qml.PauliZ(4))
      return result
  \<close>
  Calling the QNode records the tape of the function and runs it on the device.
\<close>

definition QCNN_tape :: "real list \<Rightarrow> real list \<Rightarrow> error + tape" where
  "QCNN_tape X params = seq [ data_embedding X, QCNN_structure_without_pooling U_SU4 params ] []"

definition QCNN :: "real list \<Rightarrow> real list \<Rightarrow> error + real" where
  "QCNN X params = (case QCNN_tape X params of Inl e \<Rightarrow> Inl e | Inr t \<Rightarrow> execute 8 t 4)"

text \<open>
  The matrix of a tape on an \<open>n\<close>-qubit register: column \<open>j\<close> is the state the tape makes
  of the basis state \<open>j\<close>. The matrix of the two-qubit block is the one of its tape on the
  wires \<open>[0, 1]\<close> of a two-qubit register.
\<close>

definition basis_state :: "nat \<Rightarrow> state" where
  "basis_state j = (\<lambda>k. if k = j then 1 else 0)"

definition matrix_of :: "nat \<Rightarrow> tape \<Rightarrow> nat \<Rightarrow> nat \<Rightarrow> complex" where
  "matrix_of n t i j = run n t (basis_state j) i"

definition U_SU4_matrix :: "real list \<Rightarrow> error + (nat \<Rightarrow> nat \<Rightarrow> complex)" where
  "U_SU4_matrix params =
     (case U_SU4 params [0, 1] [] of Inl e \<Rightarrow> Inl e | Inr t \<Rightarrow> Inr (matrix_of 2 t))"

text \<open>The state after the embedding alone.\<close>

definition embed :: "real list \<Rightarrow> error + state" where
  "embed X = (case data_embedding X [] of Inl e \<Rightarrow> Inl e | Inr t \<Rightarrow> Inr (run 8 t zero_state))"

section \<open>Loss and accuracy\<close>

text \<open>
  \<^verbatim>\<open>
  def square_loss(labels, predictions):
      loss = 0
      for l, p in zip(labels, predictions):
          loss = loss + (l - p) ** 2
      loss = loss / len(labels)
      return loss
  \<close>
  Labels are the integer class labels of the data set, predictions are real numbers.
  Python's \<open>/\<close> raises on a zero divisor.
\<close>

definition py_div :: "real \<Rightarrow> nat \<Rightarrow> error + real" where
  "py_div x n = (if n = 0 then Inl ZeroDivisionError else Inr (x / real n))"

definition square_loss :: "int list \<Rightarrow> real list \<Rightarrow> error + real" where
  "square_loss labels predictions =
     (let loss = fold (\<lambda>(l, p) loss. loss + (real_of_int l - p)\<^sup>2) (zip labels predictions) 0
      in py_div loss (length labels))"

text \<open>
  \<^verbatim>\<open>
  def cost(params, X, Y):
      predictions = [QCNN(x, params) for x in X]
      loss = square_loss(Y, predictions)
      return loss
  \<close>
  The list comprehension evaluates the circuit on each example in order; the first
  exception ends it.
\<close>

fun comprehension :: "(error + 'a) list \<Rightarrow> error + 'a list" where
  "comprehension [] = Inr []"
| "comprehension (r # rs) =
     (case r of Inl e \<Rightarrow> Inl e
      | Inr v \<Rightarrow> (case comprehension rs of Inl e \<Rightarrow> Inl e | Inr vs \<Rightarrow> Inr (v # vs)))"

definition cost :: "real list \<Rightarrow> real list list \<Rightarrow> int list \<Rightarrow> error + real" where
  "cost params X Y =
     (case comprehension (map (\<lambda>x. QCNN x params) X) of
        Inl e \<Rightarrow> Inl e
      | Inr predictions \<Rightarrow> square_loss Y predictions)"

text \<open>
  \<^verbatim>\<open>
  def accuracy_test(predictions, labels):
      acc = 0
      for l, p in zip(labels, predictions):
          if np.abs(l - p) < 0.5:
              acc = acc + 1
      return acc / len(labels)
  \<close>
\<close>

definition accuracy_test :: "real list \<Rightarrow> int list \<Rightarrow> error + real" where
  "accuracy_test predictions labels =
     (let acc = fold (\<lambda>(l, p) acc. if \<bar>real_of_int l - p\<bar> < 0.5 then acc + 1 else acc)
                     (zip labels predictions) (0::nat)
      in py_div (real acc) (length labels))"

section \<open>Inner product and unitarity\<close>

text \<open>
  The notions the properties are stated with: the inner product of two states of an
  \<open>n\<close>-qubit register, a unitary matrix (the conjugate transpose times the matrix is the
  identity), and the operations that are gates, as opposed to the loading of a state.
\<close>

definition inner_product :: "nat \<Rightarrow> state \<Rightarrow> state \<Rightarrow> complex" where
  "inner_product n \<phi> \<psi> = (\<Sum>k<2^n. cnj (\<phi> k) * \<psi> k)"

definition unitary2 :: "mat2 \<Rightarrow> bool" where
  "unitary2 M = (case M of (a, b, c, d) \<Rightarrow>
      cnj a * a + cnj c * c = 1 \<and> cnj a * b + cnj c * d = 0 \<and>
      cnj b * a + cnj d * c = 0 \<and> cnj b * b + cnj d * d = 1)"

fun is_gate :: "operation \<Rightarrow> bool" where
  "is_gate (AmplitudeEmbedding f ws) = False"
| "is_gate (U3 theta phi delta w) = True"
| "is_gate (RY theta w) = True"
| "is_gate (RZ theta w) = True"
| "is_gate (CNOT c t) = True"

text \<open>
  The basis index a controlled NOT on the bits \<open>c\<close> (control) and \<open>t\<close> (target) sends the
  basis index \<open>k\<close> to.
\<close>

definition CNOT_index :: "nat \<Rightarrow> nat \<Rightarrow> nat \<Rightarrow> nat" where
  "CNOT_index c t k = (if bit k c then flip_bit t k else k)"

section \<open>The gate sequence of the block and of the ansatz\<close>

lemma seq_append:
  "seq (xs @ ys) t = (case seq xs t of Inl e \<Rightarrow> Inl e | Inr t' \<Rightarrow> seq ys t')"
  by (induction xs arbitrary: t) (auto split: sum.splits)

lemma range_step_values:
  "range_step 0 8 2 = [0, 2, 4, 6]" "range_step 1 7 2 = [1, 3, 5]"
  "range_step 0 8 1 = [0, 1, 2, 3, 4, 5, 6, 7]"
  by (simp_all add: range_step_def upt_conv_Cons)

lemma seq_flat3: "seq [a, seq xs, seq ys] = seq (a # xs @ ys)"
  by (rule ext) (simp add: seq_append split: sum.splits)

lemma conv_layer1_pairs:
  "conv_layer1 U p = seq [U p [0, 7], U p [0, 1], U p [2, 3], U p [4, 5], U p [6, 7],
                         U p [1, 2], U p [3, 4], U p [5, 6]]"
proof -
  have "conv_layer1 U p = seq [U p [0, 7], seq [U p [0, 1], U p [2, 3], U p [4, 5], U p [6, 7]],
                         seq [U p [1, 2], U p [3, 4], U p [5, 6]]]"
    unfolding conv_layer1_def range_step_values by (simp add: numeral_2_eq_2[symmetric])
  then show ?thesis
    unfolding seq_flat3 by simp
qed

lemma layers_flat:
  "seq [seq xs, seq ys, seq zs] = seq (xs @ ys @ zs)"
  by (rule ext) (simp add: seq_append split: sum.splits)

lemma ansatz_pairs:
  "QCNN_structure_without_pooling U params =
     seq [ U (slice params 0 15) [0, 7],
           U (slice params 0 15) [0, 1], U (slice params 0 15) [2, 3],
           U (slice params 0 15) [4, 5], U (slice params 0 15) [6, 7],
           U (slice params 0 15) [1, 2], U (slice params 0 15) [3, 4],
           U (slice params 0 15) [5, 6],
           U (slice params 15 30) [0, 6], U (slice params 15 30) [0, 2],
           U (slice params 15 30) [4, 6], U (slice params 15 30) [2, 4],
           U (slice params 30 45) [0, 4] ]"
  unfolding QCNN_structure_without_pooling_def Let_def conv_layer1_pairs conv_layer2_def
    conv_layer3_def layers_flat
  by simp

lemma slices_45:
  assumes "length params = 45"
  shows "params = slice params 0 15 @ slice params 15 30 @ slice params 30 45"
    and "length (slice params 0 15) = 15" and "length (slice params 15 30) = 15"
    and "length (slice params 30 45) = 15"
proof -
  have "params = take 15 params @ drop 15 params" by simp
  also have "drop 15 params = take 15 (drop 15 params) @ drop 15 (drop 15 params)"
    by (rule append_take_drop_id[symmetric])
  also have "drop 15 (drop 15 params) = take 15 (drop 30 params)"
    using assms by simp
  finally show "params = slice params 0 15 @ slice params 15 30 @ slice params 30 45"
    by (simp add: slice_def)
qed (use assms in \<open>simp_all add: slice_def\<close>)

text \<open>
  Claim C1. For a vector of 45 parameters and any block \<open>U\<close>, the ansatz is exactly the
  sequence of calls \<open>U param1\<close> on (0,7), (0,1), (2,3), (4,5), (6,7), (1,2), (3,4), (5,6),
  then \<open>U param2\<close> on (0,6), (0,2), (4,6), (2,4), then \<open>U param3\<close> on (0,4), where
  \<open>param1 = params[0:15]\<close>, \<open>param2 = params[15:30]\<close> and \<open>param3 = params[30:45]\<close> are the
  three contiguous slices of 15 parameters that make up the vector.
\<close>

theorem ansatz_pair_sequence:
  assumes "length params = 45"
  shows "QCNN_structure_without_pooling U params =
     seq [ U (slice params 0 15) [0, 7],
           U (slice params 0 15) [0, 1], U (slice params 0 15) [2, 3],
           U (slice params 0 15) [4, 5], U (slice params 0 15) [6, 7],
           U (slice params 0 15) [1, 2], U (slice params 0 15) [3, 4],
           U (slice params 0 15) [5, 6],
           U (slice params 15 30) [0, 6], U (slice params 15 30) [0, 2],
           U (slice params 15 30) [4, 6], U (slice params 15 30) [2, 4],
           U (slice params 30 45) [0, 4] ]
     \<and> params = slice params 0 15 @ slice params 15 30 @ slice params 30 45
     \<and> length (slice params 0 15) = 15 \<and> length (slice params 15 30) = 15
     \<and> length (slice params 30 45) = 15"
  using slices_45[OF assms] ansatz_pairs[of U params] by simp

lemma U_SU4_tape:
  assumes "15 \<le> length params" and "a \<noteq> b"
  shows "U_SU4 params [a, b] t =
     Inr (t @ [ U3 (params ! 0) (params ! 1) (params ! 2) a,
                U3 (params ! 3) (params ! 4) (params ! 5) b,
                CNOT a b,
                RY (params ! 6) a,
                RZ (params ! 7) b,
                CNOT b a,
                RY (params ! 8) a,
                CNOT a b,
                U3 (params ! 9) (params ! 10) (params ! 11) a,
                U3 (params ! 12) (params ! 13) (params ! 14) b ])"
proof -
  from assms(1) have "params \<noteq> []" by auto
  with assms show ?thesis
    by (simp add: U_SU4_def qml_U3_def qml_RY_def qml_RZ_def qml_CNOT_def queue_def getitem_def)
qed

theorem ansatz_pair_sequence_witness:
  "QCNN_structure_without_pooling U_SU4 (map real [0 ..< 45]) =
     seq [ U_SU4 (slice (map real [0 ..< 45]) 0 15) [0, 7],
           U_SU4 (slice (map real [0 ..< 45]) 0 15) [0, 1], U_SU4 (slice (map real [0 ..< 45]) 0 15) [2, 3],
           U_SU4 (slice (map real [0 ..< 45]) 0 15) [4, 5], U_SU4 (slice (map real [0 ..< 45]) 0 15) [6, 7],
           U_SU4 (slice (map real [0 ..< 45]) 0 15) [1, 2], U_SU4 (slice (map real [0 ..< 45]) 0 15) [3, 4],
           U_SU4 (slice (map real [0 ..< 45]) 0 15) [5, 6],
           U_SU4 (slice (map real [0 ..< 45]) 15 30) [0, 6], U_SU4 (slice (map real [0 ..< 45]) 15 30) [0, 2],
           U_SU4 (slice (map real [0 ..< 45]) 15 30) [4, 6], U_SU4 (slice (map real [0 ..< 45]) 15 30) [2, 4],
           U_SU4 (slice (map real [0 ..< 45]) 30 45) [0, 4] ]
     \<and> slice (map real [0 ..< 45]) 15 30 = map real [15 ..< 30]"
proof (rule conjI)
  have len: "length (map real [0 ..< 45]) = 45" by simp
  show "QCNN_structure_without_pooling U_SU4 (map real [0 ..< 45]) =
     seq [ U_SU4 (slice (map real [0 ..< 45]) 0 15) [0, 7],
           U_SU4 (slice (map real [0 ..< 45]) 0 15) [0, 1], U_SU4 (slice (map real [0 ..< 45]) 0 15) [2, 3],
           U_SU4 (slice (map real [0 ..< 45]) 0 15) [4, 5], U_SU4 (slice (map real [0 ..< 45]) 0 15) [6, 7],
           U_SU4 (slice (map real [0 ..< 45]) 0 15) [1, 2], U_SU4 (slice (map real [0 ..< 45]) 0 15) [3, 4],
           U_SU4 (slice (map real [0 ..< 45]) 0 15) [5, 6],
           U_SU4 (slice (map real [0 ..< 45]) 15 30) [0, 6], U_SU4 (slice (map real [0 ..< 45]) 15 30) [0, 2],
           U_SU4 (slice (map real [0 ..< 45]) 15 30) [4, 6], U_SU4 (slice (map real [0 ..< 45]) 15 30) [2, 4],
           U_SU4 (slice (map real [0 ..< 45]) 30 45) [0, 4] ]"
    by (rule ansatz_pair_sequence[OF len, THEN conjunct1])
  show "slice (map real [0 ..< 45]) 15 30 = map real [15 ..< 30]"
    by (simp add: slice_def take_map drop_map)
qed

text \<open>
  Claim C2. For a vector of 15 parameters and two distinct target wires \<open>a\<close> (target 0)
  and \<open>b\<close> (target 1), the block queues exactly: U3 on \<open>a\<close> with parameters 0 to 2, U3 on
  \<open>b\<close> with parameters 3 to 5, CNOT from \<open>a\<close> to \<open>b\<close>, RY on \<open>a\<close> with parameter 6, RZ on
  \<open>b\<close> with parameter 7, CNOT from \<open>b\<close> to \<open>a\<close>, RY on \<open>a\<close> with parameter 8, CNOT from
  \<open>a\<close> to \<open>b\<close>, U3 on \<open>a\<close> with parameters 9 to 11, U3 on \<open>b\<close> with parameters 12 to 14.
  The result is a function of the parameters and the ordered pair alone.
\<close>

theorem U_SU4_gate_sequence:
  assumes "length params = 15" and "a \<noteq> b"
  shows "U_SU4 params [a, b] t =
     Inr (t @ [ U3 (params ! 0) (params ! 1) (params ! 2) a,
                U3 (params ! 3) (params ! 4) (params ! 5) b,
                CNOT a b,
                RY (params ! 6) a,
                RZ (params ! 7) b,
                CNOT b a,
                RY (params ! 8) a,
                CNOT a b,
                U3 (params ! 9) (params ! 10) (params ! 11) a,
                U3 (params ! 12) (params ! 13) (params ! 14) b ])"
  using assms by (intro U_SU4_tape) simp_all

theorem U_SU4_gate_sequence_witness:
  "U_SU4 [1, 2, 3, 4, 5, 6, 7, 8, 9, 10, 11, 12, 13, 14, 15] [0, 7] [] =
     Inr [ U3 1 2 3 0, U3 4 5 6 7, CNOT 0 7, RY 7 0, RZ 8 7, CNOT 7 0, RY 9 0, CNOT 0 7,
           U3 10 11 12 0, U3 13 14 15 7 ]"
  using U_SU4_gate_sequence[of "[1, 2, 3, 4, 5, 6, 7, 8, 9, 10, 11, 12, 13, 14, 15]" 0 7 "[]"]
  by simp

section \<open>The state-vector device: properties\<close>

subsection \<open>Bits of the basis index\<close>

lemma set_bit_less: "j < n \<Longrightarrow> k < 2^n \<Longrightarrow> set_bit j k < (2::nat)^n"
  by (metis take_bit_nat_eq_self_iff take_bit_set_bit_eq not_le)

lemma unset_bit_le: "unset_bit j k \<le> (k::nat)"
proof -
  have "int (unset_bit j k) \<le> int k"
    by (simp add: of_nat_unset_bit_eq unset_bit_less_eq)
  then show ?thesis by simp
qed

lemma unset_bit_less: "k < 2^n \<Longrightarrow> unset_bit j k < (2::nat)^n"
  using unset_bit_le[of j k] by linarith

lemma flip_bit_less: "j < n \<Longrightarrow> k < 2^n \<Longrightarrow> flip_bit j k < (2::nat)^n"
  by (simp add: flip_bit_eq_if set_bit_less unset_bit_less)

lemma flip_flip: "flip_bit j (flip_bit j k) = (k::nat)"
  by (rule bit_eqI) (auto simp: bit_simps)

lemma set_set: "set_bit j (set_bit j k) = set_bit j (k::nat)"
  by (rule bit_eqI) (auto simp: bit_simps)

lemma unset_set: "\<not> bit k j \<Longrightarrow> unset_bit j (set_bit j k) = (k::nat)"
  by (rule bit_eqI) (auto simp: bit_simps)

lemma set_unset: "bit k j \<Longrightarrow> set_bit j (unset_bit j k) = (k::nat)"
  by (rule bit_eqI) (auto simp: bit_simps)

lemma unset_idem: "\<not> bit k j \<Longrightarrow> unset_bit j k = (k::nat)"
  by (rule bit_eqI) (auto simp: bit_simps)

lemma sum_split_bit:
  fixes f :: "nat \<Rightarrow> complex"
  assumes "j < n"
  shows "(\<Sum>k<2^n. f k) = (\<Sum>k\<in>{k. k < 2^n \<and> \<not> bit k j}. f k + f (set_bit j k))"
proof -
  let ?A = "{k::nat. k < 2^n \<and> \<not> bit k j}"
  let ?B = "{k::nat. k < 2^n \<and> bit k j}"
  have un: "{..<2^n} = ?A \<union> ?B" by auto
  have dj: "?A \<inter> ?B = {}" by auto
  have fin: "finite ?A" "finite ?B" by auto
  have "sum f ?B = (\<Sum>k\<in>?A. f (set_bit j k))"
    by (rule sum.reindex_bij_witness[where i = "set_bit j" and j = "unset_bit j"])
       (auto simp: set_unset unset_set set_bit_less unset_bit_less assms bit_simps)
  then show ?thesis
    by (simp add: un sum.union_disjoint[OF fin dj] sum.distrib)
qed

subsection \<open>Gates keep the inner product\<close>

lemma inner_apply_single:
  assumes u: "unitary2 M" and j: "j < n"
  shows "inner_product n (apply_single M j \<phi>) (apply_single M j \<psi>) = inner_product n \<phi> \<psi>"
proof -
  obtain a b c d where M: "M = (a, b, c, d)" by (cases M) auto
  from u have e: "cnj a * a + cnj c * c = 1" "cnj a * b + cnj c * d = 0"
      "cnj b * a + cnj d * c = 0" "cnj b * b + cnj d * d = 1"
    by (auto simp: unitary2_def M)
  have alg: "cnj (a * p0 + b * p1) * (a * q0 + b * q1) + cnj (c * p0 + d * p1) * (c * q0 + d * q1)
        = cnj p0 * q0 + cnj p1 * q1" for p0 p1 q0 q1
  proof -
    have "cnj (a * p0 + b * p1) * (a * q0 + b * q1) + cnj (c * p0 + d * p1) * (c * q0 + d * q1)
       = (cnj a * a + cnj c * c) * (cnj p0 * q0) + (cnj a * b + cnj c * d) * (cnj p0 * q1)
       + (cnj b * a + cnj d * c) * (cnj p1 * q0) + (cnj b * b + cnj d * d) * (cnj p1 * q1)"
      by (simp add: algebra_simps)
    then show ?thesis by (simp add: e)
  qed
  have lo: "apply_single M j \<chi> k = a * \<chi> k + b * \<chi> (set_bit j k)"
    if "\<not> bit k j" for \<chi> k
    using that by (simp add: apply_single_def M unset_idem)
  have hi: "apply_single M j \<chi> (set_bit j k) = c * \<chi> k + d * \<chi> (set_bit j k)"
    if "\<not> bit k j" for \<chi> k
    using that by (simp add: apply_single_def M unset_set set_set bit_simps)
  show ?thesis
    unfolding inner_product_def sum_split_bit[OF j]
  proof (rule sum.cong[OF refl])
    fix k :: nat assume "k \<in> {k. k < 2 ^ n \<and> \<not> bit k j}"
    then have nb: "\<not> bit k j" by simp
    show "cnj (apply_single M j \<phi> k) * apply_single M j \<psi> k +
         cnj (apply_single M j \<phi> (set_bit j k)) * apply_single M j \<psi> (set_bit j k) =
         cnj (\<phi> k) * \<psi> k + cnj (\<phi> (set_bit j k)) * \<psi> (set_bit j k)"
      unfolding lo[OF nb] hi[OF nb] by (rule alg)
  qed
qed

lemma inner_apply_CNOT:
  assumes "t < n" "c \<noteq> t"
  shows "inner_product n (apply_CNOT c t \<phi>) (apply_CNOT c t \<psi>) = inner_product n \<phi> \<psi>"
proof -
  define p where "p = (\<lambda>k::nat. if bit k c then flip_bit t k else k)"
  have keep: "bit (flip_bit t k) c = bit k c" for k :: nat
    using assms(2) by (simp add: bit_flip_bit_iff)
  have invol: "p (p k) = k" for k
    by (simp add: p_def keep flip_flip)
  have bound: "p k < 2 ^ n" if "k < 2 ^ n" for k
    using that assms(1) by (simp add: p_def flip_bit_less)
  have "(\<Sum>k<2^n. cnj (\<phi> (p k)) * \<psi> (p k)) = (\<Sum>k<2^n. cnj (\<phi> k) * \<psi> k)"
    by (rule sum.reindex_bij_witness[where i = p and j = p]) (simp_all add: invol bound)
  then show ?thesis
    by (simp add: inner_product_def apply_CNOT_def p_def)
qed

subsection \<open>The matrices of the rotations are unitary\<close>

lemma cos_sin_complex:
  "complex_of_real (cos x) * complex_of_real (cos x) + complex_of_real (sin x) * complex_of_real (sin x) = 1"
proof -
  have "complex_of_real (cos x) * complex_of_real (cos x) + complex_of_real (sin x) * complex_of_real (sin x)
      = complex_of_real (cos x * cos x + sin x * sin x)"
    by (simp only: of_real_add of_real_mult)
  then show ?thesis by (simp only: sin_cos_squared_add3 of_real_1)
qed

lemma cnj_cis_mult: "cnj (cis x) * cis x = 1"
  by (simp add: cis_cnj cis_mult)

lemma unitary2_RY: "unitary2 (RY_matrix theta)"
  using cos_sin_complex[of "theta / 2"]
  by (simp add: unitary2_def RY_matrix_def add.commute)

lemma unitary2_RZ: "unitary2 (RZ_matrix theta)"
  by (simp add: unitary2_def RZ_matrix_def cnj_cis_mult)

lemma unitary2_U3: "unitary2 (U3_matrix theta phi delta)"
proof -
  define c where "c = complex_of_real (cos (theta / 2))"
  define s where "s = complex_of_real (sin (theta / 2))"
  have cs: "c * c + s * s = 1" "s * s + c * c = 1"
    using cos_sin_complex[of "theta / 2"] by (simp_all add: c_def s_def add.commute)
  have cc: "cnj c = c" "cnj s = s" by (simp_all add: c_def s_def)
  have M: "U3_matrix theta phi delta = (c, - cis delta * s, cis phi * s, cis (phi + delta) * c)"
    by (simp add: U3_matrix_def c_def s_def)
  have 1: "cnj c * c + cnj (cis phi * s) * (cis phi * s) = 1"
  proof -
    have "cnj (cis phi * s) * (cis phi * s) = (cnj (cis phi) * cis phi) * (s * s)"
      by (simp add: cc)
    then show ?thesis by (simp only: cnj_cis_mult mult_1 cc cs)
  qed
  have 4: "cnj (- cis delta * s) * (- cis delta * s) + cnj (cis (phi + delta) * c) * (cis (phi + delta) * c) = 1"
  proof -
    have "cnj (- cis delta * s) * (- cis delta * s) = (cnj (cis delta) * cis delta) * (s * s)"
      by (simp add: cc)
    moreover have "cnj (cis (phi + delta) * c) * (cis (phi + delta) * c)
        = (cnj (cis (phi + delta)) * cis (phi + delta)) * (c * c)"
      by (simp add: cc)
    ultimately show ?thesis by (simp only: cnj_cis_mult mult_1 cs)
  qed
  have 2: "cnj c * (- cis delta * s) + cnj (cis phi * s) * (cis (phi + delta) * c) = 0"
  proof -
    have "cnj (cis phi) * cis (phi + delta) = cis delta"
      by (simp add: cis_cnj cis_mult)
    then have "cnj (cis phi * s) * (cis (phi + delta) * c) = cis delta * (s * c)"
      by (simp add: cc mult.assoc mult.left_commute[of s])
    then show ?thesis by (simp add: cc mult.commute)
  qed
  have 3: "cnj (- cis delta * s) * c + cnj (cis (phi + delta) * c) * (cis phi * s) = 0"
  proof -
    have "cnj (cis (phi + delta)) * cis phi = cnj (cis delta)"
      by (simp add: cis_cnj cis_mult)
    then have "cnj (cis (phi + delta) * c) * (cis phi * s) = cnj (cis delta) * (c * s)"
      by (simp add: cc mult.assoc mult.left_commute[of c])
    then show ?thesis by (simp add: cc mult.commute)
  qed
  show ?thesis
    unfolding M unitary2_def using 1 2 3 4 by simp
qed

lemma wire_bit_less: "w < n \<Longrightarrow> wire_bit n w < n"
  by (simp add: wire_bit_def)

lemma wire_bit_inj: "c < n \<Longrightarrow> t < n \<Longrightarrow> c \<noteq> t \<Longrightarrow> wire_bit n c \<noteq> wire_bit n t"
  by (simp add: wire_bit_def)

lemma inner_apply_operation:
  assumes "is_gate g" and "on_device n g"
  shows "inner_product n (apply_operation n g \<phi>) (apply_operation n g \<psi>) = inner_product n \<phi> \<psi>"
  using assms
  by (cases g)
     (simp_all add: inner_apply_single inner_apply_CNOT unitary2_U3 unitary2_RY unitary2_RZ
        wire_bit_less wire_bit_inj)

lemma inner_run:
  assumes "list_all (\<lambda>g. is_gate g \<and> on_device n g) t"
  shows "inner_product n (run n t \<phi>) (run n t \<psi>) = inner_product n \<phi> \<psi>"
  using assms unfolding run_def
  by (induction t arbitrary: \<phi> \<psi>) (simp_all add: inner_apply_operation)

lemma norm_sq_inner: "complex_of_real (norm_sq n \<psi>) = inner_product n \<psi> \<psi>"
proof -
  have sq: "complex_of_real ((cmod z)\<^sup>2) = cnj z * z" for z
    using complex_norm_square[of z] by (simp only: mult.commute)
  have "complex_of_real (norm_sq n \<psi>) = (\<Sum>k<2^n. complex_of_real ((cmod (\<psi> k))\<^sup>2))"
    by (simp only: norm_sq_def of_real_sum)
  also have "\<dots> = (\<Sum>k<2^n. cnj (\<psi> k) * \<psi> k)"
    by (simp only: sq)
  finally show ?thesis by (simp only: inner_product_def)
qed

lemma norm_sq_run:
  assumes "list_all (\<lambda>g. is_gate g \<and> on_device n g) t"
  shows "norm_sq n (run n t \<psi>) = norm_sq n \<psi>"
proof -
  have "complex_of_real (norm_sq n (run n t \<psi>)) = complex_of_real (norm_sq n \<psi>)"
    by (simp only: norm_sq_inner inner_run[OF assms])
  then show ?thesis by (simp only: of_real_eq_iff)
qed

lemma inner_basis:
  assumes "i < 2 ^ n"
  shows "inner_product n (basis_state i) (basis_state j) = (if i = j then 1 else 0)"
proof -
  have "inner_product n (basis_state i) (basis_state j)
      = (\<Sum>k<2^n. if k = i then (if i = j then 1 else 0) else 0)"
    unfolding inner_product_def basis_state_def by (intro sum.cong) auto
  also have "\<dots> = (if i = j then 1 else 0)"
    using assms by (simp add: sum.delta)
  finally show ?thesis .
qed

lemma U_SU4_gates:
  assumes "15 \<le> length params" and "a \<noteq> b" and "a < n" and "b < n"
  shows "\<exists>ops. U_SU4 params [a, b] t = Inr (t @ ops) \<and> length ops = 10
            \<and> list_all (\<lambda>g. is_gate g \<and> on_device n g) ops"
  using assms by (simp add: U_SU4_tape)

subsection \<open>A tape of gates acts as its matrix\<close>

lemma apply_single_linear:
  assumes "j < n" and "\<And>k. k < 2 ^ n \<Longrightarrow> \<chi> k = (\<Sum>l<N. B l k * \<psi> l)" and "i < 2 ^ n"
  shows "apply_single M j \<chi> i = (\<Sum>l<N. apply_single M j (B l) i * \<psi> l)"
proof -
  obtain a b c d where M: "M = (a, b, c, d)" by (cases M) auto
  have lo: "\<chi> (unset_bit j i) = (\<Sum>l<N. B l (unset_bit j i) * \<psi> l)"
    by (rule assms(2)) (rule unset_bit_less[OF assms(3)])
  have hi: "\<chi> (set_bit j i) = (\<Sum>l<N. B l (set_bit j i) * \<psi> l)"
    by (rule assms(2)) (rule set_bit_less[OF assms(1,3)])
  show ?thesis
    unfolding apply_single_def M prod.case lo hi
    by (simp add: sum_distrib_left sum.distrib algebra_simps)
qed

lemma apply_CNOT_linear:
  assumes "t < n" and "\<And>k. k < 2 ^ n \<Longrightarrow> \<chi> k = (\<Sum>l<N. B l k * \<psi> l)" and "i < 2 ^ n"
  shows "apply_CNOT c t \<chi> i = (\<Sum>l<N. apply_CNOT c t (B l) i * \<psi> l)"
  using assms(2)[of "flip_bit t i"] assms(2)[of i] flip_bit_less[OF assms(1,3)] assms(3)
  by (simp add: apply_CNOT_def)

lemma apply_operation_linear:
  assumes "is_gate g" and "on_device n g"
    and "\<And>k. k < 2 ^ n \<Longrightarrow> \<chi> k = (\<Sum>l<N. B l k * \<psi> l)" and "i < 2 ^ n"
  shows "apply_operation n g \<chi> i = (\<Sum>l<N. apply_operation n g (B l) i * \<psi> l)"
  using assms(1,2)
  by (cases g)
     (simp_all add: apply_single_linear[OF _ assms(3,4)] apply_CNOT_linear[OF _ assms(3,4)]
        wire_bit_less)

lemma run_linear:
  assumes "list_all (\<lambda>g. is_gate g \<and> on_device n g) t"
    and "\<And>k. k < 2 ^ n \<Longrightarrow> \<chi> k = (\<Sum>l<N. B l k * \<psi> l)" and "i < 2 ^ n"
  shows "run n t \<chi> i = (\<Sum>l<N. run n t (B l) i * \<psi> l)"
  using assms
proof (induction t arbitrary: \<chi> B i)
  case Nil
  then show ?case by (simp add: run_def)
next
  case (Cons g t)
  have g: "is_gate g" "on_device n g" and t: "list_all (\<lambda>g. is_gate g \<and> on_device n g) t"
    using Cons.prems(1) by simp_all
  have step: "apply_operation n g \<chi> k = (\<Sum>l<N. apply_operation n g (B l) k * \<psi> l)"
    if "k < 2 ^ n" for k
    by (rule apply_operation_linear[OF g Cons.prems(2) that])
  have "run n t (apply_operation n g \<chi>) i = (\<Sum>l<N. run n t (apply_operation n g (B l)) i * \<psi> l)"
    by (rule Cons.IH[OF t step Cons.prems(3)])
  then show ?case by (simp add: run_def)
qed

lemma run_matrix:
  assumes "list_all (\<lambda>g. is_gate g \<and> on_device n g) t" and "i < 2 ^ n"
  shows "run n t \<psi> i = (\<Sum>j<2^n. matrix_of n t i j * \<psi> j)"
proof -
  have "\<psi> k = (\<Sum>l<2^n. basis_state l k * \<psi> l)" if "k < 2 ^ n" for k
  proof -
    have "(\<Sum>l<2^n. basis_state l k * \<psi> l) = (\<Sum>l<2^n. if l = k then \<psi> l else 0)"
      by (intro sum.cong) (auto simp: basis_state_def)
    then show ?thesis using that by (simp add: sum.delta')
  qed
  from run_linear[OF assms(1) this assms(2)] show ?thesis
    by (simp add: matrix_of_def)
qed

subsection \<open>The tape of the circuit\<close>

lemma seq_gates:
  assumes "\<And>c t. c \<in> set cs \<Longrightarrow> \<exists>ops. c t = Inr (t @ ops) \<and> length ops = m \<and> list_all P ops"
  shows "\<exists>ops. seq cs t = Inr (t @ ops) \<and> length ops = length cs * m \<and> list_all P ops"
  using assms
proof (induction cs arbitrary: t)
  case Nil
  then show ?case by simp
next
  case (Cons c cs)
  obtain ops where c: "c t = Inr (t @ ops)" "length ops = m" "list_all P ops"
    using Cons.prems[of c t] by auto
  obtain ops' where cs: "seq cs (t @ ops) = Inr ((t @ ops) @ ops')" "length ops' = length cs * m"
      "list_all P ops'"
    using Cons.IH[of "t @ ops"] Cons.prems by auto
  have "seq (c # cs) t = Inr (t @ (ops @ ops'))"
    using c cs by simp
  moreover have "length (ops @ ops') = length (c # cs) * m" "list_all P (ops @ ops')"
    using c cs by simp_all
  ultimately show ?case by blast
qed

lemma ansatz_gates:
  assumes "length params = 45"
  shows "\<exists>ops. QCNN_structure_without_pooling U_SU4 params t = Inr (t @ ops) \<and> length ops = 130
            \<and> list_all (\<lambda>g. is_gate g \<and> on_device 8 g) ops"
proof -
  note len = slices_45(2-4)[OF assms]
  have "\<exists>ops. seq [ U_SU4 (slice params 0 15) [0, 7],
           U_SU4 (slice params 0 15) [0, 1], U_SU4 (slice params 0 15) [2, 3],
           U_SU4 (slice params 0 15) [4, 5], U_SU4 (slice params 0 15) [6, 7],
           U_SU4 (slice params 0 15) [1, 2], U_SU4 (slice params 0 15) [3, 4],
           U_SU4 (slice params 0 15) [5, 6],
           U_SU4 (slice params 15 30) [0, 6], U_SU4 (slice params 15 30) [0, 2],
           U_SU4 (slice params 15 30) [4, 6], U_SU4 (slice params 15 30) [2, 4],
           U_SU4 (slice params 30 45) [0, 4] ] t = Inr (t @ ops)
         \<and> length ops = length [ U_SU4 (slice params 0 15) [0, 7],
           U_SU4 (slice params 0 15) [0, 1], U_SU4 (slice params 0 15) [2, 3],
           U_SU4 (slice params 0 15) [4, 5], U_SU4 (slice params 0 15) [6, 7],
           U_SU4 (slice params 0 15) [1, 2], U_SU4 (slice params 0 15) [3, 4],
           U_SU4 (slice params 0 15) [5, 6],
           U_SU4 (slice params 15 30) [0, 6], U_SU4 (slice params 15 30) [0, 2],
           U_SU4 (slice params 15 30) [4, 6], U_SU4 (slice params 15 30) [2, 4],
           U_SU4 (slice params 30 45) [0, 4] ] * 10
         \<and> list_all (\<lambda>g. is_gate g \<and> on_device 8 g) ops"
  proof (rule seq_gates)
    fix c :: "tape statement" and t'
    assume "c \<in> set [ U_SU4 (slice params 0 15) [0, 7],
           U_SU4 (slice params 0 15) [0, 1], U_SU4 (slice params 0 15) [2, 3],
           U_SU4 (slice params 0 15) [4, 5], U_SU4 (slice params 0 15) [6, 7],
           U_SU4 (slice params 0 15) [1, 2], U_SU4 (slice params 0 15) [3, 4],
           U_SU4 (slice params 0 15) [5, 6],
           U_SU4 (slice params 15 30) [0, 6], U_SU4 (slice params 15 30) [0, 2],
           U_SU4 (slice params 15 30) [4, 6], U_SU4 (slice params 15 30) [2, 4],
           U_SU4 (slice params 30 45) [0, 4] ]"
    then obtain p a b where c: "c = U_SU4 p [a, b]" and ok: "length p = 15" "a \<noteq> b" "a < 8" "b < 8"
      using len by auto
    show "\<exists>ops. c t' = Inr (t' @ ops) \<and> length ops = 10 \<and> list_all (\<lambda>g. is_gate g \<and> on_device 8 g) ops"
      unfolding c using ok by (intro U_SU4_gates) simp_all
  qed
  then show ?thesis
    unfolding ansatz_pairs by simp
qed

lemma range_8: "range_step 0 8 1 = [0 ..< 8]"
  by (simp add: range_step_def)

lemma data_embedding_tape:
  assumes "length X = 256" and "sqrt (\<Sum>x\<leftarrow>X. x\<^sup>2) \<noteq> 0"
  shows "data_embedding X t =
     Inr (t @ [AmplitudeEmbedding (map (\<lambda>x. x / sqrt (\<Sum>x\<leftarrow>X. x\<^sup>2)) X) [0 ..< 8]])"
  using assms unfolding data_embedding_def range_8
  by (simp add: qml_AmplitudeEmbedding_def queue_def Let_def)

lemma data_embedding_zero:
  assumes "length X = 256" and "sqrt (\<Sum>x\<leftarrow>X. x\<^sup>2) = 0"
  shows "data_embedding X t = Inl InvalidInputError"
  using assms unfolding data_embedding_def range_8
  by (simp add: qml_AmplitudeEmbedding_def queue_def Let_def)

lemma sum_squares_nonneg: "0 \<le> (\<Sum>x\<leftarrow>X. (x::real)\<^sup>2)"
  by (induction X) simp_all

lemma norm_sq_loaded:
  fixes f :: "real list"
  assumes "length f = 2 ^ n"
  shows "norm_sq n (\<lambda>k. if k < length f then complex_of_real (f ! k) else 0) = (\<Sum>x\<leftarrow>f. x\<^sup>2)"
proof -
  have "norm_sq n (\<lambda>k. if k < length f then complex_of_real (f ! k) else 0)
      = (\<Sum>k<length f. (f ! k)\<^sup>2)"
    unfolding norm_sq_def assms by (intro sum.cong) (simp_all add: assms)
  also have "\<dots> = (\<Sum>x\<leftarrow>map (\<lambda>x. x\<^sup>2) f. x)"
    by (simp add: sum_list_sum_nth atLeast0LessThan)
  finally show ?thesis by simp
qed

lemma sum_list_divide:
  fixes c :: real
  shows "(\<Sum>x\<leftarrow>X. f x / c) = (\<Sum>x\<leftarrow>X. f x) / c"
  by (induction X) (simp_all add: add_divide_distrib)

lemma normalised_squares:
  fixes X :: "real list"
  assumes "sqrt (\<Sum>x\<leftarrow>X. x\<^sup>2) \<noteq> 0"
  shows "(\<Sum>y\<leftarrow>map (\<lambda>x. x / sqrt (\<Sum>x\<leftarrow>X. x\<^sup>2)) X. y\<^sup>2) = 1"
proof -
  let ?s = "\<Sum>x\<leftarrow>X. x\<^sup>2"
  have pos: "?s \<noteq> 0" using assms by auto
  have "(\<Sum>y\<leftarrow>map (\<lambda>x. x / sqrt ?s) X. y\<^sup>2) = (\<Sum>x\<leftarrow>X. x\<^sup>2 / ?s)"
    using sum_squares_nonneg[of X]
    by (simp add: comp_def power_divide)
  also have "\<dots> = ?s / ?s"
    by (rule sum_list_divide)
  finally show ?thesis using pos by simp
qed

lemma norm_sq_zero_state: "norm_sq n zero_state = 1"
proof -
  have "norm_sq n zero_state = (\<Sum>k<(2::nat)^n. if k = 0 then (1::real) else 0)"
    unfolding norm_sq_def zero_state_def by (intro sum.cong) auto
  then show ?thesis by (simp add: sum.delta)
qed

lemma list_all_take: "list_all P xs \<Longrightarrow> list_all P (take m xs)"
  by (auto simp: list_all_iff dest: in_set_takeD)

lemma norm_sq_prefix:
  assumes "list_all (\<lambda>g. is_gate g \<and> on_device n g) ops"
  shows "norm_sq n (run n (take m ops) \<psi>) = norm_sq n \<psi>"
  by (rule norm_sq_run[OF list_all_take[OF assms]])

lemma expval_PauliZ_bounds:
  "- norm_sq n \<psi> \<le> expval_PauliZ n w \<psi>" "expval_PauliZ n w \<psi> \<le> norm_sq n \<psi>"
proof -
  have "(\<Sum>k<2^n. - ((cmod (\<psi> k))\<^sup>2)) \<le> expval_PauliZ n w \<psi>"
    unfolding expval_PauliZ_def by (intro sum_mono) simp
  then show "- norm_sq n \<psi> \<le> expval_PauliZ n w \<psi>"
    by (simp add: norm_sq_def sum_negf)
  show "expval_PauliZ n w \<psi> \<le> norm_sq n \<psi>"
    unfolding expval_PauliZ_def norm_sq_def by (intro sum_mono) simp
qed

lemma loaded_unit_norm:
  assumes "length X = 256" and "sqrt (\<Sum>x\<leftarrow>X. x\<^sup>2) \<noteq> 0"
  shows "norm_sq 8 (apply_operation 8
           (AmplitudeEmbedding (map (\<lambda>x. x / sqrt (\<Sum>x\<leftarrow>X. x\<^sup>2)) X) [0 ..< 8]) \<psi>) = 1"
proof -
  let ?f = "map (\<lambda>x. x / sqrt (\<Sum>x\<leftarrow>X. x\<^sup>2)) X"
  have "length ?f = 2 ^ 8" using assms(1) by simp
  from norm_sq_loaded[OF this] normalised_squares[OF assms(2)]
  show ?thesis by simp
qed

lemma QCNN_tape_ok:
  assumes "length X = 256" and "sqrt (\<Sum>x\<leftarrow>X. x\<^sup>2) \<noteq> 0" and "length params = 45"
  shows "\<exists>ops. QCNN_tape X params =
            Inr (AmplitudeEmbedding (map (\<lambda>x. x / sqrt (\<Sum>x\<leftarrow>X. x\<^sup>2)) X) [0 ..< 8] # ops)
          \<and> length ops = 130 \<and> list_all (\<lambda>g. is_gate g \<and> on_device 8 g) ops"
proof -
  let ?E = "AmplitudeEmbedding (map (\<lambda>x. x / sqrt (\<Sum>x\<leftarrow>X. x\<^sup>2)) X) [0 ..< 8]"
  obtain ops where ops: "QCNN_structure_without_pooling U_SU4 params [?E] = Inr ([?E] @ ops)"
      "length ops = 130" "list_all (\<lambda>g. is_gate g \<and> on_device 8 g) ops"
    using ansatz_gates[OF assms(3), of "[?E]"] by blast
  have "QCNN_tape X params = Inr (?E # ops)"
    using ops(1) by (simp add: QCNN_tape_def data_embedding_tape[OF assms(1,2)])
  with ops(2,3) show ?thesis by blast
qed

lemma list_all_on_device:
  "list_all (\<lambda>g. is_gate g \<and> on_device n g) ops \<Longrightarrow> list_all (on_device n) ops"
  by (simp add: list_all_iff)

subsection \<open>Unitarity, embedding, unit norm and the range of the expectation\<close>

text \<open>
  Claim C4. For a vector of 15 real parameters, the 4x4 matrix \<open>M\<close> of the two-qubit
  block (the block on the wires \<open>[0, 1]\<close> of a two-qubit register acts on every state as
  the multiplication by \<open>M\<close>) is unitary: the conjugate transpose of \<open>M\<close> times \<open>M\<close> is
  the identity matrix, exactly.
\<close>

theorem U_SU4_unitary:
  assumes "length params = 15"
  shows "\<exists>M ops. U_SU4 params [0, 1] [] = Inr ops \<and> U_SU4_matrix params = Inr M
           \<and> (\<forall>\<psi>. \<forall>i<4. run 2 ops \<psi> i = (\<Sum>j<4. M i j * \<psi> j))
           \<and> (\<forall>i<4. \<forall>j<4. (\<Sum>k<4. cnj (M k i) * M k j) = (if i = j then 1 else 0))"
proof -
  obtain ops where ops: "U_SU4 params [0, 1] [] = Inr ([] @ ops)"
      and gates: "list_all (\<lambda>g. is_gate g \<and> on_device 2 g) ops"
    using U_SU4_gates[of params 0 1 2 "[]"] assms by auto
  have M: "U_SU4_matrix params = Inr (matrix_of 2 ops)"
    using ops by (simp add: U_SU4_matrix_def)
  have lin: "run 2 ops \<psi> i = (\<Sum>j<4. matrix_of 2 ops i j * \<psi> j)" if "i < 4" for \<psi> i
    using run_matrix[OF gates, of i \<psi>] that by simp
  have "(\<Sum>k<4. cnj (matrix_of 2 ops k i) * matrix_of 2 ops k j) = (if i = j then 1 else 0)"
    if "i < 4" for i j
  proof -
    have "(\<Sum>k<4. cnj (matrix_of 2 ops k i) * matrix_of 2 ops k j)
        = inner_product 2 (run 2 ops (basis_state i)) (run 2 ops (basis_state j))"
      by (simp add: inner_product_def matrix_of_def)
    also have "\<dots> = inner_product 2 (basis_state i) (basis_state j)"
      by (rule inner_run[OF gates])
    also have "\<dots> = (if i = j then 1 else 0)"
      using that by (intro inner_basis) simp
    finally show ?thesis .
  qed
  with M ops lin show ?thesis by auto
qed

theorem U_SU4_unitary_witness:
  "\<exists>M ops. U_SU4 (replicate 15 0) [0, 1] [] = Inr ops \<and> U_SU4_matrix (replicate 15 0) = Inr M
           \<and> (\<forall>\<psi>. \<forall>i<4. run 2 ops \<psi> i = (\<Sum>j<4. M i j * \<psi> j))
           \<and> (\<forall>i<4. \<forall>j<4. (\<Sum>k<4. cnj (M k i) * M k j) = (if i = j then 1 else 0))"
  using U_SU4_unitary[of "replicate 15 0"] by simp

text \<open>
  Claim C6. For a real feature vector of length 256, the embedding returns the state whose
  amplitudes are the features divided by their Euclidean norm (real parts proportional to
  the input, imaginary parts zero), and the squared amplitudes of that state sum to 1;
  when the norm is zero the embedding fails with InvalidInputError and returns no state.
\<close>

theorem embedding_normalises:
  assumes "length X = 256"
  shows "(sqrt (\<Sum>x\<leftarrow>X. x\<^sup>2) \<noteq> 0 \<longrightarrow>
            (\<exists>\<psi>. embed X = Inr \<psi>
               \<and> (\<forall>k<256. Re (\<psi> k) = X ! k / sqrt (\<Sum>x\<leftarrow>X. x\<^sup>2) \<and> Im (\<psi> k) = 0)
               \<and> norm_sq 8 \<psi> = 1))
       \<and> (sqrt (\<Sum>x\<leftarrow>X. x\<^sup>2) = 0 \<longrightarrow> embed X = Inl InvalidInputError)"
proof (intro conjI impI)
  assume nz: "sqrt (\<Sum>x\<leftarrow>X. x\<^sup>2) \<noteq> 0"
  let ?E = "AmplitudeEmbedding (map (\<lambda>x. x / sqrt (\<Sum>x\<leftarrow>X. x\<^sup>2)) X) [0 ..< 8]"
  let ?\<psi> = "apply_operation 8 ?E zero_state"
  have "embed X = Inr ?\<psi>"
    by (simp add: embed_def data_embedding_tape[OF assms nz] run_def)
  moreover have "\<forall>k<256. Re (?\<psi> k) = X ! k / sqrt (\<Sum>x\<leftarrow>X. x\<^sup>2) \<and> Im (?\<psi> k) = 0"
    using assms by simp
  moreover have "norm_sq 8 ?\<psi> = 1"
    by (rule loaded_unit_norm[OF assms nz])
  ultimately show "\<exists>\<psi>. embed X = Inr \<psi>
               \<and> (\<forall>k<256. Re (\<psi> k) = X ! k / sqrt (\<Sum>x\<leftarrow>X. x\<^sup>2) \<and> Im (\<psi> k) = 0)
               \<and> norm_sq 8 \<psi> = 1"
    by blast
next
  assume "sqrt (\<Sum>x\<leftarrow>X. x\<^sup>2) = 0"
  then show "embed X = Inl InvalidInputError"
    by (simp add: embed_def data_embedding_zero[OF assms])
qed

theorem embedding_normalises_witness:
  "(\<exists>\<psi>. embed (1 # replicate 255 0) = Inr \<psi>
       \<and> (\<forall>k<256. Re (\<psi> k) = (1 # replicate 255 0) ! k / sqrt (\<Sum>x\<leftarrow>1 # replicate 255 0. x\<^sup>2) \<and> Im (\<psi> k) = 0)
       \<and> norm_sq 8 \<psi> = 1)
   \<and> embed (replicate 256 0) = Inl InvalidInputError"
  using embedding_normalises[of "1 # replicate 255 0"] embedding_normalises[of "replicate 256 0"]
  by (simp add: sum_list_replicate)

lemma QCNN_value:
  assumes "QCNN_tape X params = Inr (AmplitudeEmbedding f [0 ..< 8] # ops)"
    and "length f = 256" and "list_all (\<lambda>g. is_gate g \<and> on_device 8 g) ops"
  shows "QCNN X params = Inr (expval_PauliZ 8 4 (run 8 (AmplitudeEmbedding f [0 ..< 8] # ops) zero_state))"
  using assms list_all_on_device[OF assms(3)]
  by (simp add: QCNN_def execute_def)

lemma QCNN_returns:
  assumes "length X = 256" and "sqrt (\<Sum>x\<leftarrow>X. x\<^sup>2) \<noteq> 0" and "length params = 45"
  shows "\<exists>t. QCNN_tape X params = Inr t
           \<and> QCNN X params = Inr (expval_PauliZ 8 4 (run 8 t zero_state))
           \<and> norm_sq 8 (run 8 t zero_state) = 1"
proof -
  let ?E = "AmplitudeEmbedding (map (\<lambda>x. x / sqrt (\<Sum>x\<leftarrow>X. x\<^sup>2)) X) [0 ..< 8]"
  obtain ops where t: "QCNN_tape X params = Inr (?E # ops)"
      and gates: "list_all (\<lambda>g. is_gate g \<and> on_device 8 g) ops"
    using QCNN_tape_ok[OF assms] by blast
  have v: "QCNN X params = Inr (expval_PauliZ 8 4 (run 8 (?E # ops) zero_state))"
    using assms(1) by (intro QCNN_value[OF t _ gates]) simp
  have "run 8 (?E # ops) zero_state = run 8 ops (apply_operation 8 ?E zero_state)"
    by (simp add: run_def)
  then have "norm_sq 8 (run 8 (?E # ops) zero_state) = 1"
    by (simp only: norm_sq_run[OF gates] loaded_unit_norm[OF assms(1,2)])
  with t v show ?thesis by blast
qed

subsection \<open>The circuit at a basis state with all parameters zero\<close>

text \<open>
  With all parameters zero every rotation is the identity and the controlled NOTs leave
  the state \<open>|0...0>\<close> as it is: on the one-hot feature vector the circuit returns 1.
\<close>

lemma set_idem: "bit k j \<Longrightarrow> set_bit j k = (k::nat)"
  by (rule bit_eqI) (auto simp: bit_simps)

lemma apply_single_identity: "apply_single (1, 0, 0, 1) j \<psi> = \<psi>"
  by (rule ext) (simp add: apply_single_def set_idem unset_idem)

lemma rotation_matrices_zero:
  "U3_matrix 0 0 0 = (1, 0, 0, 1)" "RY_matrix 0 = (1, 0, 0, 1)" "RZ_matrix 0 = (1, 0, 0, 1)"
  by (simp_all add: U3_matrix_def RY_matrix_def RZ_matrix_def)

lemma apply_CNOT_zero_state:
  assumes "c \<noteq> t"
  shows "apply_CNOT c t zero_state = zero_state"
proof (rule ext)
  fix k :: nat
  have "flip_bit t k \<noteq> 0" if "bit k c"
  proof
    assume "flip_bit t k = 0"
    then have "\<not> bit (flip_bit t k) c" by simp
    with that assms show False by (simp add: bit_flip_bit_iff)
  qed
  moreover have "k \<noteq> 0" if "bit k c"
  proof
    assume "k = 0"
    with that show False by simp
  qed
  ultimately show "apply_CNOT c t zero_state k = zero_state k"
    by (cases "bit k c") (simp_all add: apply_CNOT_def zero_state_def)
qed

lemma run_fixes:
  assumes "list_all (\<lambda>g. apply_operation n g \<psi> = \<psi>) t"
  shows "run n t \<psi> = \<psi>"
  using assms unfolding run_def by (induction t) simp_all

lemma U_SU4_zero_fixes:
  assumes "a \<noteq> b" and "a < n" and "b < n"
  shows "\<exists>ops. U_SU4 (replicate 15 0) [a, b] t = Inr (t @ ops) \<and> length ops = 10
            \<and> list_all (\<lambda>g. apply_operation n g zero_state = zero_state) ops"
  using assms
  by (simp add: U_SU4_tape rotation_matrices_zero apply_single_identity apply_CNOT_zero_state
        wire_bit_inj)

lemma expval_zero_state:
  assumes "w < n"
  shows "expval_PauliZ n w zero_state = 1"
proof -
  have "expval_PauliZ n w zero_state = (\<Sum>k<(2::nat)^n. if k = 0 then (1::real) else 0)"
    unfolding expval_PauliZ_def zero_state_def by (intro sum.cong) auto
  then show ?thesis by (simp add: sum.delta)
qed

lemma QCNN_one_hot_zero_params: "QCNN (1 # replicate 255 0) (replicate 45 0) = Inr 1"
proof -
  let ?X = "1 # replicate 255 (0::real)"
  let ?E = "AmplitudeEmbedding (map (\<lambda>x. x / sqrt (\<Sum>x\<leftarrow>?X. x\<^sup>2)) ?X) [0 ..< 8]"
  have s: "slice (replicate 45 (0::real)) 0 15 = replicate 15 0"
      "slice (replicate 45 (0::real)) 15 30 = replicate 15 0"
      "slice (replicate 45 (0::real)) 30 45 = replicate 15 0"
    by (simp_all add: slice_def)
  have "\<exists>ops. seq (map (\<lambda>(a, b). U_SU4 (replicate 15 0) [a, b])
            [(0, 7), (0, 1), (2, 3), (4, 5), (6, 7), (1, 2), (3, 4), (5, 6),
             (0, 6), (0, 2), (4, 6), (2, 4), (0, 4)]) [?E] = Inr ([?E] @ ops)
          \<and> length ops = length (map (\<lambda>(a, b). U_SU4 (replicate 15 0) [a, b])
            [(0, 7), (0, 1), (2, 3), (4, 5), (6, 7), (1, 2), (3, 4), (5, 6),
             (0, 6), (0, 2), (4, 6), (2, 4), (0, 4::nat)]) * 10
          \<and> list_all (\<lambda>g. apply_operation 8 g zero_state = zero_state) ops"
  proof (rule seq_gates)
    fix c :: "tape statement" and t'
    assume "c \<in> set (map (\<lambda>(a, b). U_SU4 (replicate 15 0) [a, b])
            [(0, 7), (0, 1), (2, 3), (4, 5), (6, 7), (1, 2), (3, 4), (5, 6),
             (0, 6), (0, 2), (4, 6), (2, 4), (0, 4)])"
    then obtain a b where "c = U_SU4 (replicate 15 0) [a, b]" "a \<noteq> b" "a < 8" "b < 8"
      by auto
    then show "\<exists>ops. c t' = Inr (t' @ ops) \<and> length ops = 10
        \<and> list_all (\<lambda>g. apply_operation 8 g zero_state = zero_state) ops"
      using U_SU4_zero_fixes[of a b 8 t'] by simp
  qed
  then obtain ops where ops: "QCNN_structure_without_pooling U_SU4 (replicate 45 0) [?E] = Inr (?E # ops)"
      and fixed: "list_all (\<lambda>g. apply_operation 8 g zero_state = zero_state) ops"
    unfolding ansatz_pairs s by auto
  have tape: "QCNN_tape ?X (replicate 45 0) = Inr (?E # ops)"
    using ops by (simp add: QCNN_tape_def data_embedding_tape sum_list_replicate)
  obtain ops' where tape': "QCNN_tape ?X (replicate 45 0) = Inr (?E # ops')"
      and gates: "list_all (\<lambda>g. is_gate g \<and> on_device 8 g) ops'"
    using QCNN_tape_ok[of ?X "replicate 45 0"] by (auto simp: sum_list_replicate)
  from tape tape' have same: "ops' = ops" by simp
  have loaded: "apply_operation 8 ?E zero_state = zero_state"
    by (rule ext) (auto simp: zero_state_def sum_list_replicate nth_Cons')
  have "run 8 (?E # ops) zero_state = run 8 ops (apply_operation 8 ?E zero_state)"
    by (simp add: run_def)
  also have "\<dots> = zero_state"
    unfolding loaded by (rule run_fixes[OF fixed])
  finally have final: "run 8 (?E # ops) zero_state = zero_state" .
  have "QCNN ?X (replicate 45 0) = Inr (expval_PauliZ 8 4 (run 8 (?E # ops) zero_state))"
    using gates unfolding same by (intro QCNN_value[OF tape]) simp_all
  then show ?thesis
    by (simp only: final expval_zero_state[of 4 8, simplified])
qed

subsection \<open>The tape of the circuit, operation by operation\<close>

lemma blocks_tape:
  assumes "list_all (\<lambda>(p, a, b). 15 \<le> length p \<and> a \<noteq> b) calls"
  shows "seq (map (\<lambda>(p, a, b). U_SU4 p [a, b]) calls) t =
     Inr (t @ concat (map (\<lambda>(p, a, b).
              [ U3 (p ! 0) (p ! 1) (p ! 2) a, U3 (p ! 3) (p ! 4) (p ! 5) b, CNOT a b,
                RY (p ! 6) a, RZ (p ! 7) b, CNOT b a, RY (p ! 8) a, CNOT a b,
                U3 (p ! 9) (p ! 10) (p ! 11) a, U3 (p ! 12) (p ! 13) (p ! 14) b ]) calls))"
  using assms
proof (induction calls arbitrary: t)
  case Nil
  then show ?case by simp
next
  case (Cons c calls)
  obtain p a b where c: "c = (p, a, b)" by (cases c) auto
  from Cons.prems have ok: "15 \<le> length p" "a \<noteq> b"
      and rest: "list_all (\<lambda>(p, a, b). 15 \<le> length p \<and> a \<noteq> b) calls"
    by (simp_all add: c)
  show ?case
    by (simp add: c U_SU4_tape[OF ok] Cons.IH[OF rest])
qed

lemma QCNN_tape_explicit:
  assumes "length X = 256" and "sqrt (\<Sum>x\<leftarrow>X. x\<^sup>2) \<noteq> 0" and "length params = 45"
  shows "QCNN_tape X params =
     Inr (AmplitudeEmbedding (map (\<lambda>x. x / sqrt (\<Sum>x\<leftarrow>X. x\<^sup>2)) X) [0 ..< 8] #
          concat (map (\<lambda>(p, a, b).
              [ U3 (p ! 0) (p ! 1) (p ! 2) a, U3 (p ! 3) (p ! 4) (p ! 5) b, CNOT a b,
                RY (p ! 6) a, RZ (p ! 7) b, CNOT b a, RY (p ! 8) a, CNOT a b,
                U3 (p ! 9) (p ! 10) (p ! 11) a, U3 (p ! 12) (p ! 13) (p ! 14) b ])
            [ (slice params 0 15, 0, 7),
              (slice params 0 15, 0, 1), (slice params 0 15, 2, 3),
              (slice params 0 15, 4, 5), (slice params 0 15, 6, 7),
              (slice params 0 15, 1, 2), (slice params 0 15, 3, 4),
              (slice params 0 15, 5, 6),
              (slice params 15 30, 0, 6), (slice params 15 30, 0, 2),
              (slice params 15 30, 4, 6), (slice params 15 30, 2, 4),
              (slice params 30 45, 0, 4) ]))"
proof -
  let ?E = "AmplitudeEmbedding (map (\<lambda>x. x / sqrt (\<Sum>x\<leftarrow>X. x\<^sup>2)) X) [0 ..< 8]"
  let ?calls = "[ (slice params 0 15, 0, 7),
              (slice params 0 15, 0, 1), (slice params 0 15, 2, 3),
              (slice params 0 15, 4, 5), (slice params 0 15, 6, 7),
              (slice params 0 15, 1, 2), (slice params 0 15, 3, 4),
              (slice params 0 15, 5, 6),
              (slice params 15 30, 0, 6), (slice params 15 30, 0, 2),
              (slice params 15 30, 4, 6), (slice params 15 30, 2, 4),
              (slice params 30 45, 0::nat, 4::nat) ]"
  note len = slices_45(2-4)[OF assms(3)]
  have ok: "list_all (\<lambda>(p, a, b). 15 \<le> length p \<and> a \<noteq> b) ?calls"
    using len by simp
  have "QCNN_structure_without_pooling U_SU4 params = seq (map (\<lambda>(p, a, b). U_SU4 p [a, b]) ?calls)"
    unfolding ansatz_pairs by simp
  then have "QCNN_structure_without_pooling U_SU4 params [?E] =
      Inr ([?E] @ concat (map (\<lambda>(p, a, b).
              [ U3 (p ! 0) (p ! 1) (p ! 2) a, U3 (p ! 3) (p ! 4) (p ! 5) b, CNOT a b,
                RY (p ! 6) a, RZ (p ! 7) b, CNOT b a, RY (p ! 8) a, CNOT a b,
                U3 (p ! 9) (p ! 10) (p ! 11) a, U3 (p ! 12) (p ! 13) (p ! 14) b ]) ?calls))"
    by (simp only: blocks_tape[OF ok])
  then show ?thesis
    by (simp add: QCNN_tape_def data_embedding_tape[OF assms(1,2)])
qed

subsection \<open>The circuit at another basis state with all parameters zero\<close>

text \<open>
  With all parameters zero each block exchanges the bits of its two wires, so a basis
  state goes to a basis state: the one-hot feature vector at index 1 (the bit of wire 7)
  ends at index 8 (the bit of wire 4), where the circuit returns \<open>-1\<close>.
\<close>

lemma CNOT_index_involution: "c \<noteq> t \<Longrightarrow> CNOT_index c t (CNOT_index c t k) = k"
  by (simp add: CNOT_index_def bit_flip_bit_iff flip_flip)

lemma apply_CNOT_basis:
  assumes "c \<noteq> t"
  shows "apply_CNOT c t (basis_state j) = basis_state (CNOT_index c t j)"
proof (rule ext)
  fix k
  have "CNOT_index c t k = j \<longleftrightarrow> k = CNOT_index c t j"
    using CNOT_index_involution[OF assms] by metis
  then show "apply_CNOT c t (basis_state j) k = basis_state (CNOT_index c t j) k"
    by (simp add: apply_CNOT_def basis_state_def CNOT_index_def)
qed

lemma run_append: "run n (xs @ ys) \<psi> = run n ys (run n xs \<psi>)"
  by (simp add: run_def)

lemma run_zero_blocks_basis:
  assumes "list_all (\<lambda>(a, b). a \<noteq> b \<and> a < n \<and> b < n) pairs"
  shows "run n (concat (map (\<lambda>(a, b).
              [ U3 0 0 0 a, U3 0 0 0 b, CNOT a b, RY 0 a, RZ 0 b, CNOT b a, RY 0 a, CNOT a b,
                U3 0 0 0 a, U3 0 0 0 b ]) pairs)) (basis_state j)
       = basis_state (fold (\<lambda>(a, b) j.
            CNOT_index (wire_bit n a) (wire_bit n b)
              (CNOT_index (wire_bit n b) (wire_bit n a)
                (CNOT_index (wire_bit n a) (wire_bit n b) j))) pairs j)"
  using assms
proof (induction pairs arbitrary: j)
  case Nil
  then show ?case by (simp add: run_def)
next
  case (Cons c pairs)
  obtain a b where c: "c = (a, b)" by (cases c) auto
  from Cons.prems have ab: "wire_bit n a \<noteq> wire_bit n b" "wire_bit n b \<noteq> wire_bit n a"
      and rest: "list_all (\<lambda>(a, b). a \<noteq> b \<and> a < n \<and> b < n) pairs"
    by (auto simp: c wire_bit_inj)
  have block: "run n [ U3 0 0 0 a, U3 0 0 0 b, CNOT a b, RY 0 a, RZ 0 b, CNOT b a, RY 0 a, CNOT a b,
                U3 0 0 0 a, U3 0 0 0 b ] (basis_state j)
      = basis_state (CNOT_index (wire_bit n a) (wire_bit n b)
              (CNOT_index (wire_bit n b) (wire_bit n a)
                (CNOT_index (wire_bit n a) (wire_bit n b) j)))"
    by (simp add: run_def rotation_matrices_zero apply_single_identity apply_CNOT_basis ab)
  have split: "concat (map (\<lambda>(a, b).
              [ U3 0 0 0 a, U3 0 0 0 b, CNOT a b, RY 0 a, RZ 0 b, CNOT b a, RY 0 a, CNOT a b,
                U3 0 0 0 a, U3 0 0 0 b ]) (c # pairs))
      = [ U3 0 0 0 a, U3 0 0 0 b, CNOT a b, RY 0 a, RZ 0 b, CNOT b a, RY 0 a, CNOT a b,
                U3 0 0 0 a, U3 0 0 0 b ] @ concat (map (\<lambda>(a, b).
              [ U3 0 0 0 a, U3 0 0 0 b, CNOT a b, RY 0 a, RZ 0 b, CNOT b a, RY 0 a, CNOT a b,
                U3 0 0 0 a, U3 0 0 0 b ]) pairs)"
    by (simp add: c)
  show ?case
    unfolding split run_append block Cons.IH[OF rest] by (simp add: c)
qed

lemma expval_basis_state:
  assumes "j < 2 ^ n"
  shows "expval_PauliZ n w (basis_state j) = (if bit j (wire_bit n w) then - 1 else 1)"
proof -
  have "expval_PauliZ n w (basis_state j)
      = (\<Sum>k<(2::nat)^n. if k = j then (if bit j (wire_bit n w) then - 1 else 1 :: real) else 0)"
    unfolding expval_PauliZ_def basis_state_def by (intro sum.cong) auto
  then show ?thesis using assms by (simp add: sum.delta)
qed

lemma swapped_index:
  "fold (\<lambda>(a, b) j.
            CNOT_index (wire_bit 8 a) (wire_bit 8 b)
              (CNOT_index (wire_bit 8 b) (wire_bit 8 a)
                (CNOT_index (wire_bit 8 a) (wire_bit 8 b) j)))
     [(0, 7), (0, 1), (2, 3), (4, 5), (6, 7), (1, 2), (3, 4), (5, 6),
      (0, 6), (0, 2), (4, 6), (2, 4), (0, 4)] 1 = 8"
  by code_simp

lemma QCNN_second_basis_state_zero_params:
  "QCNN (0 # 1 # replicate 254 0) (replicate 45 0) = Inr (- 1)"
proof -
  let ?X = "0 # 1 # replicate 254 (0::real)"
  let ?E = "AmplitudeEmbedding (map (\<lambda>x. x / sqrt (\<Sum>x\<leftarrow>?X. x\<^sup>2)) ?X) [0 ..< 8]"
  let ?pairs = "[(0, 7), (0, 1), (2, 3), (4, 5), (6, 7), (1, 2), (3, 4), (5, 6),
      (0, 6), (0, 2), (4, 6), (2, 4), (0::nat, 4::nat)]"
  let ?ops = "concat (map (\<lambda>(a, b).
              [ U3 0 0 0 a, U3 0 0 0 b, CNOT a b, RY 0 a, RZ 0 b, CNOT b a, RY 0 a, CNOT a b,
                U3 0 0 0 a, U3 0 0 0 b ]) ?pairs)"
  have valid: "length ?X = 256" "sqrt (\<Sum>x\<leftarrow>?X. x\<^sup>2) \<noteq> 0" "length (replicate 45 (0::real)) = 45"
    by (simp_all add: sum_list_replicate)
  have tape: "QCNN_tape ?X (replicate 45 0) = Inr (?E # ?ops)"
    unfolding QCNN_tape_explicit[OF valid] by (simp add: slice_def)
  obtain ops' where tape': "QCNN_tape ?X (replicate 45 0) = Inr (?E # ops')"
      and gates: "list_all (\<lambda>g. is_gate g \<and> on_device 8 g) ops'"
    using QCNN_tape_ok[OF valid] by blast
  from tape tape' have same: "ops' = ?ops" by simp
  have res: "QCNN ?X (replicate 45 0) = Inr (expval_PauliZ 8 4 (run 8 (?E # ?ops) zero_state))"
    using gates unfolding same by (intro QCNN_value[OF tape]) simp_all
  have loaded: "apply_operation 8 ?E zero_state = basis_state 1"
    by (rule ext) (auto simp: basis_state_def sum_list_replicate nth_Cons')
  have "run 8 (?E # ?ops) zero_state = run 8 ?ops (apply_operation 8 ?E zero_state)"
    by (simp add: run_def)
  also have "\<dots> = basis_state 8"
  proof -
    have ok: "list_all (\<lambda>(a, b). a \<noteq> b \<and> a < 8 \<and> b < 8) ?pairs" by simp
    show ?thesis
      unfolding loaded by (simp only: run_zero_blocks_basis[OF ok] swapped_index)
  qed
  finally have final: "run 8 (?E # ?ops) zero_state = basis_state 8" .
  have b: "bit (8::nat) (wire_bit 8 4)" by code_simp
  have "expval_PauliZ 8 4 (basis_state 8) = - 1"
    using expval_basis_state[of 8 8 4] b by simp
  then show ?thesis
    by (simp only: res final)
qed

text \<open>
  Claim C3. For a feature vector of length 256 with a nonzero norm and a vector of 45
  parameters, the circuit raises nothing. Its tape is the embedding of the normalised
  features on the eight wires, followed by the ten gates of the two-qubit block for each
  of the thirteen pairs of the three layers, each layer with its slice of the parameters;
  the value returned is the expectation of Pauli-Z on wire 4 in the state this tape makes
  of \<open>|0...0>\<close>, and it lies in \<open>[-1, 1]\<close>. \<open>QCNN\<close> is a function of the features and
  the parameters alone.
\<close>

theorem QCNN_expectation_range:
  assumes "length X = 256" and "sqrt (\<Sum>x\<leftarrow>X. x\<^sup>2) \<noteq> 0" and "length params = 45"
  shows "\<exists>t. t = AmplitudeEmbedding (map (\<lambda>x. x / sqrt (\<Sum>x\<leftarrow>X. x\<^sup>2)) X) [0 ..< 8] #
                concat (map (\<lambda>(p, a, b).
                    [ U3 (p ! 0) (p ! 1) (p ! 2) a, U3 (p ! 3) (p ! 4) (p ! 5) b, CNOT a b,
                      RY (p ! 6) a, RZ (p ! 7) b, CNOT b a, RY (p ! 8) a, CNOT a b,
                      U3 (p ! 9) (p ! 10) (p ! 11) a, U3 (p ! 12) (p ! 13) (p ! 14) b ])
                  [ (slice params 0 15, 0, 7),
                    (slice params 0 15, 0, 1), (slice params 0 15, 2, 3),
                    (slice params 0 15, 4, 5), (slice params 0 15, 6, 7),
                    (slice params 0 15, 1, 2), (slice params 0 15, 3, 4),
                    (slice params 0 15, 5, 6),
                    (slice params 15 30, 0, 6), (slice params 15 30, 0, 2),
                    (slice params 15 30, 4, 6), (slice params 15 30, 2, 4),
                    (slice params 30 45, 0, 4) ])
           \<and> QCNN_tape X params = Inr t
           \<and> QCNN X params = Inr (expval_PauliZ 8 4 (run 8 t zero_state))
           \<and> - 1 \<le> expval_PauliZ 8 4 (run 8 t zero_state)
           \<and> expval_PauliZ 8 4 (run 8 t zero_state) \<le> 1"
proof -
  obtain t where t: "QCNN_tape X params = Inr t"
      "QCNN X params = Inr (expval_PauliZ 8 4 (run 8 t zero_state))"
      "norm_sq 8 (run 8 t zero_state) = 1"
    using QCNN_returns[OF assms] by blast
  from expval_PauliZ_bounds[where n = 8 and w = 4 and \<psi> = "run 8 t zero_state"] t(3)
  have "- 1 \<le> expval_PauliZ 8 4 (run 8 t zero_state)" "expval_PauliZ 8 4 (run 8 t zero_state) \<le> 1"
    by simp_all
  moreover from t(1) QCNN_tape_explicit[OF assms]
  have "t = AmplitudeEmbedding (map (\<lambda>x. x / sqrt (\<Sum>x\<leftarrow>X. x\<^sup>2)) X) [0 ..< 8] #
                concat (map (\<lambda>(p, a, b).
                    [ U3 (p ! 0) (p ! 1) (p ! 2) a, U3 (p ! 3) (p ! 4) (p ! 5) b, CNOT a b,
                      RY (p ! 6) a, RZ (p ! 7) b, CNOT b a, RY (p ! 8) a, CNOT a b,
                      U3 (p ! 9) (p ! 10) (p ! 11) a, U3 (p ! 12) (p ! 13) (p ! 14) b ])
                  [ (slice params 0 15, 0, 7),
                    (slice params 0 15, 0, 1), (slice params 0 15, 2, 3),
                    (slice params 0 15, 4, 5), (slice params 0 15, 6, 7),
                    (slice params 0 15, 1, 2), (slice params 0 15, 3, 4),
                    (slice params 0 15, 5, 6),
                    (slice params 15 30, 0, 6), (slice params 15 30, 0, 2),
                    (slice params 15 30, 4, 6), (slice params 15 30, 2, 4),
                    (slice params 30 45, 0, 4) ])"
    by simp
  ultimately show ?thesis using t(1,2) by blast
qed

theorem QCNN_expectation_range_witness:
  "QCNN (1 # replicate 255 0) (replicate 45 0) = Inr 1
   \<and> QCNN (0 # 1 # replicate 254 0) (replicate 45 0) = Inr (- 1)
   \<and> (\<exists>t. t = AmplitudeEmbedding (0 # 1 # replicate 254 0) [0 ..< 8] #
                concat (map (\<lambda>(a, b).
                    [ U3 0 0 0 a, U3 0 0 0 b, CNOT a b, RY 0 a, RZ 0 b, CNOT b a, RY 0 a, CNOT a b,
                      U3 0 0 0 a, U3 0 0 0 b ])
                  [ (0, 7), (0, 1), (2, 3), (4, 5), (6, 7), (1, 2), (3, 4), (5, 6),
                    (0, 6), (0, 2), (4, 6), (2, 4), (0, 4) ])
           \<and> QCNN_tape (0 # 1 # replicate 254 0) (replicate 45 0) = Inr t
           \<and> QCNN (0 # 1 # replicate 254 0) (replicate 45 0) = Inr (expval_PauliZ 8 4 (run 8 t zero_state))
           \<and> - 1 \<le> expval_PauliZ 8 4 (run 8 t zero_state)
           \<and> expval_PauliZ 8 4 (run 8 t zero_state) \<le> 1)"
  using QCNN_expectation_range[of "0 # 1 # replicate 254 0" "replicate 45 0"]
    QCNN_one_hot_zero_params QCNN_second_basis_state_zero_params
  by (simp add: sum_list_replicate slice_def)

text \<open>
  Claim C5. The squared amplitudes of a state of unit norm still sum to 1 after every
  gate of a two-qubit block on any pair of distinct wires of the register; and in the
  circuit of \<open>QCNN\<close> the state has unit norm after every operation of the tape, from the
  embedding to the last gate of the last layer.
\<close>

theorem unit_norm_invariant:
  "(norm_sq 8 \<psi> = 1 \<and> length p = 15 \<and> a < 8 \<and> b < 8 \<and> a \<noteq> b \<longrightarrow>
      (\<exists>ops. U_SU4 p [a, b] [] = Inr ops \<and> length ops = 10
          \<and> (\<forall>m\<le>length ops. norm_sq 8 (run 8 (take m ops) \<psi>) = 1)))
   \<and> (length X = 256 \<and> sqrt (\<Sum>x\<leftarrow>X. x\<^sup>2) \<noteq> 0 \<and> length params = 45 \<longrightarrow>
      (\<exists>t. QCNN_tape X params = Inr t \<and> length t = 131
          \<and> (\<forall>m\<le>length t. norm_sq 8 (run 8 (take m t) zero_state) = 1)))"
proof (intro conjI impI)
  assume h: "norm_sq 8 \<psi> = 1 \<and> length p = 15 \<and> a < 8 \<and> b < 8 \<and> a \<noteq> b"
  then obtain ops where ops: "U_SU4 p [a, b] [] = Inr ([] @ ops)" "length ops = 10"
      "list_all (\<lambda>g. is_gate g \<and> on_device 8 g) ops"
    using U_SU4_gates[of p a b 8 "[]"] by auto
  have "norm_sq 8 (run 8 (take m ops) \<psi>) = 1" for m
    using norm_sq_prefix[OF ops(3), of m \<psi>] h by simp
  with ops(1,2) show "\<exists>ops. U_SU4 p [a, b] [] = Inr ops \<and> length ops = 10
          \<and> (\<forall>m\<le>length ops. norm_sq 8 (run 8 (take m ops) \<psi>) = 1)"
    by auto
next
  assume h: "length X = 256 \<and> sqrt (\<Sum>x\<leftarrow>X. x\<^sup>2) \<noteq> 0 \<and> length params = 45"
  then have hx: "length X = 256" "sqrt (\<Sum>x\<leftarrow>X. x\<^sup>2) \<noteq> 0" by simp_all
  let ?E = "AmplitudeEmbedding (map (\<lambda>x. x / sqrt (\<Sum>x\<leftarrow>X. x\<^sup>2)) X) [0 ..< 8]"
  obtain ops where t: "QCNN_tape X params = Inr (?E # ops)" and len: "length ops = 130"
      and gates: "list_all (\<lambda>g. is_gate g \<and> on_device 8 g) ops"
    using QCNN_tape_ok[of X params] h by blast
  have "norm_sq 8 (run 8 (take m (?E # ops)) zero_state) = 1" for m
  proof (cases m)
    case 0
    then show ?thesis by (simp add: run_def norm_sq_zero_state)
  next
    case (Suc m')
    have "run 8 (take m (?E # ops)) zero_state = run 8 (take m' ops) (apply_operation 8 ?E zero_state)"
      by (simp add: Suc run_def)
    then show ?thesis
      by (simp only: norm_sq_prefix[OF gates] loaded_unit_norm[OF hx])
  qed
  with t len show "\<exists>t. QCNN_tape X params = Inr t \<and> length t = 131
          \<and> (\<forall>m\<le>length t. norm_sq 8 (run 8 (take m t) zero_state) = 1)"
    by auto
qed

theorem unit_norm_invariant_witness:
  "(\<exists>ops. U_SU4 (replicate 15 0) [0, 7] [] = Inr ops \<and> length ops = 10
          \<and> (\<forall>m\<le>length ops. norm_sq 8 (run 8 (take m ops) zero_state) = 1))
   \<and> (\<exists>t. QCNN_tape (1 # replicate 255 0) (replicate 45 0) = Inr t \<and> length t = 131
          \<and> (\<forall>m\<le>length t. norm_sq 8 (run 8 (take m t) zero_state) = 1))"
  using unit_norm_invariant[of zero_state "replicate 15 0" 0 7 "1 # replicate 255 0" "replicate 45 0"]
  by (simp add: sum_list_replicate norm_sq_zero_state)

section \<open>Loss and accuracy: properties\<close>

lemma py_div_pos: "n \<noteq> 0 \<Longrightarrow> py_div x n = Inr (x / real n)"
  by (simp add: py_div_def)

lemma fold_loss:
  "fold (\<lambda>(l, p) loss. loss + (real_of_int l - p)\<^sup>2) zs a
     = a + (\<Sum>(l, p)\<leftarrow>zs. (real_of_int l - p)\<^sup>2)"
  by (induction zs arbitrary: a) (auto simp: algebra_simps)

lemma fold_count:
  "fold (\<lambda>z acc. if P z then acc + 1 else acc) zs (a::nat) = a + length (filter P zs)"
  by (induction zs arbitrary: a) auto

lemma sum_list_zip_nth:
  fixes f :: "'a \<times> 'b \<Rightarrow> real"
  assumes "length xs = length ys"
  shows "(\<Sum>z\<leftarrow>zip xs ys. f z) = (\<Sum>i<length xs. f (xs ! i, ys ! i))"
proof -
  have "(\<Sum>z\<leftarrow>zip xs ys. f z) = (\<Sum>i = 0..<length (zip xs ys). f (zip xs ys ! i))"
    by (simp add: sum_list_sum_nth)
  also have "\<dots> = (\<Sum>i<length xs. f (xs ! i, ys ! i))"
    using assms by (intro sum.cong) (auto simp: atLeast0LessThan)
  finally show ?thesis .
qed

lemma square_loss_mean:
  assumes "length predictions = length labels" "labels \<noteq> []"
  shows "square_loss labels predictions =
     Inr ((\<Sum>i<length labels. (predictions ! i - real_of_int (labels ! i))\<^sup>2) / real (length labels))"
proof -
  have "(\<Sum>(l, p)\<leftarrow>zip labels predictions. (real_of_int l - p)\<^sup>2)
      = (\<Sum>i<length labels. (real_of_int (labels ! i) - predictions ! i)\<^sup>2)"
    using sum_list_zip_nth[OF assms(1)[symmetric], of "\<lambda>(l, p). (real_of_int l - p)\<^sup>2"]
    by simp
  also have "\<dots> = (\<Sum>i<length labels. (predictions ! i - real_of_int (labels ! i))\<^sup>2)"
    by (simp add: power2_commute)
  finally show ?thesis
    using assms(2) by (simp add: square_loss_def fold_loss py_div_pos)
qed

lemma accuracy_count:
  assumes "length predictions = length labels"
  shows "fold (\<lambda>(l, p) acc. if \<bar>real_of_int l - p\<bar> < 0.5 then acc + 1 else acc)
              (zip labels predictions) (0::nat)
       = card {i. i < length labels \<and> \<bar>predictions ! i - real_of_int (labels ! i)\<bar> < 1 / 2}"
proof -
  have eq: "(\<lambda>(l, p) acc. if \<bar>real_of_int l - p\<bar> < 0.5 then acc + 1 else acc)
      = (\<lambda>z acc. if (\<lambda>(l, p). \<bar>real_of_int l - p\<bar> < 0.5) z then acc + 1 else (acc::nat))"
    by (auto simp: fun_eq_iff)
  have "{i. i < length (zip labels predictions) \<and>
            (\<lambda>(l, p). \<bar>real_of_int l - p\<bar> < 0.5) (zip labels predictions ! i)}
      = {i. i < length labels \<and> \<bar>predictions ! i - real_of_int (labels ! i)\<bar> < 1 / 2}"
    using assms by (auto simp: abs_minus_commute)
  then show ?thesis
    unfolding eq fold_count by (simp add: length_filter_conv_card)
qed

text \<open>
  Claim C8. For a non-empty list of labels and a list of predictions of the same length,
  \<open>accuracy_test\<close> returns the number of examples with \<open>\<bar>p - label\<bar> < 0.5\<close> divided by
  the number of examples, a real number between 0 and 1. The function takes the two
  lists and returns the number only: it has no state to change.
\<close>

theorem accuracy_test_fraction:
  assumes "length predictions = length labels" and "labels \<noteq> []"
  shows "\<exists>a. accuracy_test predictions labels = Inr a
           \<and> a = real (card {i. i < length labels \<and> \<bar>predictions ! i - real_of_int (labels ! i)\<bar> < 1 / 2})
                   / real (length labels)
           \<and> 0 \<le> a \<and> a \<le> 1"
proof -
  let ?S = "{i. i < length labels \<and> \<bar>predictions ! i - real_of_int (labels ! i)\<bar> < 1 / 2}"
  have "?S \<subseteq> {..<length labels}" by auto
  then have "card ?S \<le> card {..<length labels}" by (intro card_mono) auto
  then have le: "card ?S \<le> length labels" by simp
  have "accuracy_test predictions labels = Inr (real (card ?S) / real (length labels))"
    using assms(2) unfolding accuracy_test_def accuracy_count[OF assms(1)] Let_def
    by (simp add: py_div_pos)
  moreover have "real (card ?S) / real (length labels) \<le> 1"
    using le assms(2) by (simp add: divide_le_eq_1)
  ultimately show ?thesis by simp
qed

theorem accuracy_test_fraction_witness:
  "\<exists>a. accuracy_test [0.9, 0.7, -0.6] [1, 0, 0] = Inr a
       \<and> a = real (card {i. i < length [1, 0, 0::int] \<and> \<bar>[0.9, 0.7, -0.6] ! i - real_of_int ([1, 0, 0] ! i)\<bar> < 1 / 2})
                   / real (length [1, 0, 0::int])
       \<and> 0 \<le> a \<and> a \<le> 1"
  using accuracy_test_fraction[of "[0.9, 0.7, -0.6]" "[1, 0, 0]"] by simp

text \<open>
  Claim C9. For a prediction \<open>p\<close> in \<open>[-1, 1]\<close>, the rule \<open>\<bar>label - p\<bar> < 0.5\<close> of
  \<open>accuracy_test\<close> counts an example of label 1 as correct exactly when \<open>p > 0.5\<close>, an
  example of label 0 exactly when \<open>-0.5 < p < 0.5\<close>, and a prediction \<open>p \<le> -0.5\<close> as
  incorrect for both labels.
\<close>

theorem threshold_rule:
  assumes "- 1 \<le> p" and "p \<le> 1"
  shows "(p \<le> - 1 / 2 \<longrightarrow> accuracy_test [p] [0] = Inr 0 \<and> accuracy_test [p] [1] = Inr 0)
       \<and> (accuracy_test [p] [1] = Inr 1 \<longleftrightarrow> 1 / 2 < p)
       \<and> (accuracy_test [p] [0] = Inr 1 \<longleftrightarrow> - 1 / 2 < p \<and> p < 1 / 2)"
  using assms by (auto simp: accuracy_test_def py_div_def)

theorem threshold_rule_witness:
  "(accuracy_test [- 3 / 4] [0] = Inr 0 \<and> accuracy_test [- 3 / 4] [1] = Inr 0)
       \<and> (accuracy_test [- 3 / 4] [1] = Inr 1 \<longleftrightarrow> 1 / 2 < (- 3 / 4 :: real))
       \<and> (accuracy_test [- 3 / 4] [0] = Inr 1 \<longleftrightarrow> - 1 / 2 < (- 3 / 4 :: real) \<and> (- 3 / 4 :: real) < 1 / 2)"
  using threshold_rule[of "- 3 / 4"] by simp

text \<open>
  Claim C10. \<open>square_loss\<close> and \<open>accuracy_test\<close> divide by the number of labels: on an
  empty list of labels both raise ZeroDivisionError (and so does \<open>cost\<close> on an empty
  batch); on a non-empty list of labels both return a number.
\<close>

theorem empty_batch_division:
  "square_loss [] predictions = Inl ZeroDivisionError
   \<and> accuracy_test predictions [] = Inl ZeroDivisionError
   \<and> cost params [] [] = Inl ZeroDivisionError
   \<and> (labels \<noteq> [] \<longrightarrow> (\<exists>v. square_loss labels predictions = Inr v)
                       \<and> (\<exists>a. accuracy_test predictions labels = Inr a))"
  by (simp add: square_loss_def accuracy_test_def cost_def py_div_def)

theorem empty_batch_division_witness:
  "square_loss [] [0.5] = Inl ZeroDivisionError
   \<and> accuracy_test [0.5] [] = Inl ZeroDivisionError
   \<and> cost [] [] [] = Inl ZeroDivisionError
   \<and> (\<exists>v. square_loss [1] [0.5] = Inr v) \<and> (\<exists>a. accuracy_test [0.5] [1] = Inr a)"
  using empty_batch_division[of "[0.5]" "[]" "[1]"] by simp

lemma comprehension_values: "comprehension (map Inr ps) = Inr ps"
  by (induction ps) simp_all

text \<open>
  Claim C7. For a non-empty batch of examples (feature vectors of length 256 with a
  nonzero norm, each with its label) and a vector of 45 parameters, \<open>cost\<close> returns the
  mean over the batch of the squared difference between the value of the circuit on the
  example and the label of the example.
\<close>

theorem cost_mean_squared_error:
  assumes "length X = length Y" and "Y \<noteq> []"
    and "\<forall>x\<in>set X. length x = 256 \<and> sqrt (\<Sum>v\<leftarrow>x. v\<^sup>2) \<noteq> 0"
    and "length params = 45"
  shows "\<exists>ps. map (\<lambda>x. QCNN x params) X = map Inr ps
           \<and> cost params X Y =
               Inr ((\<Sum>i<length Y. (ps ! i - real_of_int (Y ! i))\<^sup>2) / real (length Y))"
proof -
  define ps where "ps = map (\<lambda>x. expval_PauliZ 8 4 (run 8 (projr (QCNN_tape x params)) zero_state)) X"
  have "QCNN x params = Inr (expval_PauliZ 8 4 (run 8 (projr (QCNN_tape x params)) zero_state))"
    if "x \<in> set X" for x
  proof -
    from that assms(3) have "length x = 256" "sqrt (\<Sum>v\<leftarrow>x. v\<^sup>2) \<noteq> 0" by auto
    from QCNN_returns[OF this assms(4)] show ?thesis by auto
  qed
  then have m: "map (\<lambda>x. QCNN x params) X = map Inr ps"
    by (simp add: ps_def)
  have "length ps = length Y" using assms(1) by (simp add: ps_def)
  from square_loss_mean[OF this assms(2)] m
  have "cost params X Y = Inr ((\<Sum>i<length Y. (ps ! i - real_of_int (Y ! i))\<^sup>2) / real (length Y))"
    by (simp add: cost_def comprehension_values)
  with m show ?thesis by blast
qed

theorem cost_mean_squared_error_witness:
  "\<exists>ps. map (\<lambda>x. QCNN x (replicate 45 0)) [1 # replicate 255 0, replicate 255 0 @ [2]] = map Inr ps
       \<and> cost (replicate 45 0) [1 # replicate 255 0, replicate 255 0 @ [2]] [0, 1] =
           Inr ((\<Sum>i<length [0, 1 :: int]. (ps ! i - real_of_int ([0, 1] ! i))\<^sup>2) / real (length [0, 1 :: int]))"
  using cost_mean_squared_error[of "[1 # replicate 255 0, replicate 255 0 @ [2]]" "[0, 1]" "replicate 45 0"]
  by (simp add: sum_list_replicate)

end
